theory Spec2Isabelle
  imports Complex_Main
begin

section \<open>WCAG contrast verification: the colour pipeline of contrast\_verification.py\<close>

text \<open>
  The script turns a hex colour string into three channel values (\<open>hex_to_rgb\<close>), the
  channels into a relative luminance (\<open>luminance\<close>), two luminances into a contrast ratio
  (\<open>contrast_ratio\<close>) and the ratio into a verdict (\<open>check_compliance\<close>).

  Python strings are modelled as \<^typ>\<open>string\<close>, that is as lists of code points below 256;
  Python's unbounded integers as \<^typ>\<open>int\<close>; exceptions as the left summand of a sum type.
\<close>

datatype py_error = ValueError | ZeroDivisionError

subsection \<open>Python's string primitives used by \<open>hex_to_rgb\<close>\<close>

text \<open>\<^verbatim>\<open>hex_color.lstrip('#')\<close> removes every leading \<^verbatim>\<open>#\<close>, not only the first one.\<close>

definition lstrip_hash :: "string \<Rightarrow> string" where
  "lstrip_hash s = dropWhile (\<lambda>c. c = CHR ''#'') s"

text \<open>\<^verbatim>\<open>s[i:j]\<close> for \<open>0 \<le> i \<le> j\<close>: a slice is clipped at the end of the string and never raises.\<close>

definition slice :: "string \<Rightarrow> nat \<Rightarrow> nat \<Rightarrow> string" where
  "slice s i j = take (j - i) (drop i s)"

text \<open>
  \<^verbatim>\<open>int(s, 16)\<close> on a string. CPython first maps Unicode white space to a blank
  (below 256 these are 0x85 and 0xA0 besides the ASCII ones \<^verbatim>\<open>\t \n \v \f \r\<close> and the blank),
  and then runs \<^verbatim>\<open>PyLong_FromString\<close>: skip leading white space, read an optional sign,
  skip an optional \<^verbatim>\<open>0x\<close>/\<^verbatim>\<open>0X\<close> prefix with at most one underscore after it, refuse a
  leading underscore, read the digits (single underscores allowed between digits, none at
  the end), demand at least one digit, skip trailing white space and demand the end of
  the string. Every failure is a \<^verbatim>\<open>ValueError\<close>.
\<close>

definition is_space :: "char \<Rightarrow> bool" where
  "is_space c = (c \<in> set [CHR 0x09, CHR 0x0A, CHR 0x0B, CHR 0x0C, CHR 0x0D, CHR 0x20,
                            CHR 0x85, CHR 0xA0])"

text \<open>The digit table \<^verbatim>\<open>_PyLong_DigitValue\<close>: 0..35 for alphanumerics, 37 for everything else.\<close>

definition digit_value :: "char \<Rightarrow> nat" where
  "digit_value c =
     (let n = (of_char c :: nat) in
      if 48 \<le> n \<and> n \<le> 57 then n - 48
      else if 97 \<le> n \<and> n \<le> 122 then n - 87
      else if 65 \<le> n \<and> n \<le> 90 then n - 55
      else 37)"

text \<open>
  The digit loop of \<^verbatim>\<open>long_from_binary_base\<close> for base 16: the accumulated value, the
  number of digits read and whether the previous character was an underscore. It returns
  the value, the digit count and the unread rest, or \<open>None\<close> on a doubled or trailing
  underscore.
\<close>

fun scan_digits :: "string \<Rightarrow> int \<Rightarrow> nat \<Rightarrow> bool \<Rightarrow> (int \<times> nat \<times> string) option" where
  "scan_digits [] acc n prev_us = (if prev_us then None else Some (acc, n, []))"
| "scan_digits (c # cs) acc n prev_us =
     (if c = CHR ''_'' then (if prev_us then None else scan_digits cs acc n True)
      else if digit_value c < 16
        then scan_digits cs (16 * acc + int (digit_value c)) (Suc n) False
      else if prev_us then None else Some (acc, n, c # cs))"

definition skip_sign :: "string \<Rightarrow> int \<times> string" where
  "skip_sign s =
     (case s of
        [] \<Rightarrow> (1, s)
      | c # r \<Rightarrow> if c = CHR ''+'' then (1, r) else if c = CHR ''-'' then (- 1, r) else (1, s))"

definition skip_prefix :: "string \<Rightarrow> string" where
  "skip_prefix s =
     (case s of
        z # x # r \<Rightarrow>
          if z = CHR ''0'' \<and> (x = CHR ''x'' \<or> x = CHR ''X'')
          then (case r of [] \<Rightarrow> r | u # r' \<Rightarrow> if u = CHR ''_'' then r' else r)
          else s
      | _ \<Rightarrow> s)"

definition py_int16 :: "string \<Rightarrow> py_error + int" where
  "py_int16 s =
     (let (sign, s2) = skip_sign (dropWhile is_space s);
          s3 = skip_prefix s2
      in if s3 \<noteq> [] \<and> hd s3 = CHR ''_'' then Inl ValueError
         else case scan_digits s3 0 0 False of
                None \<Rightarrow> Inl ValueError
              | Some (v, n, rest) \<Rightarrow>
                  if n = 0 then Inl ValueError
                  else if dropWhile is_space rest \<noteq> [] then Inl ValueError
                  else Inr (sign * v))"

subsection \<open>\<open>hex_to_rgb\<close>\<close>

text \<open>
  \<^verbatim>\<open>tuple(int(hex_color[i:i+2], 16) for i in (0, 2, 4))\<close> after the \<^verbatim>\<open>lstrip\<close>: the three
  slices are parsed in order and the first \<^verbatim>\<open>ValueError\<close> ends the call. There is no check
  of the length and no check that only hex digits occur.
\<close>

definition hex_to_rgb :: "string \<Rightarrow> py_error + (int \<times> int \<times> int)" where
  "hex_to_rgb hex_color =
     (let h = lstrip_hash hex_color in
      case py_int16 (slice h 0 2) of
        Inl e \<Rightarrow> Inl e
      | Inr r \<Rightarrow>
          (case py_int16 (slice h 2 4) of
             Inl e \<Rightarrow> Inl e
           | Inr g \<Rightarrow>
               (case py_int16 (slice h 4 6) of
                  Inl e \<Rightarrow> Inl e
                | Inr b \<Rightarrow> Inr (r, g, b))))"

subsection \<open>The colour format of the specification\<close>

text \<open>
  The specification's Color: six hexadecimal digits, case-insensitive, after an optional
  single leading \<^verbatim>\<open>#\<close>.
\<close>

definition is_hex_digit :: "char \<Rightarrow> bool" where
  "is_hex_digit c = (c \<in> set ''0123456789abcdefABCDEF'')"

definition strip_optional_hash :: "string \<Rightarrow> string" where
  "strip_optional_hash s = (case s of [] \<Rightarrow> [] | c # r \<Rightarrow> if c = CHR ''#'' then r else s)"

definition six_hex_digits :: "string \<Rightarrow> bool" where
  "six_hex_digits t = (length t = 6 \<and> list_all is_hex_digit t)"

definition valid_color :: "string \<Rightarrow> bool" where
  "valid_color s = six_hex_digits (strip_optional_hash s)"

text \<open>
  What \<^verbatim>\<open>int(t, 16)\<close> accepts when \<open>t\<close> has at most two characters, as a slice of
  \<open>hex_to_rgb\<close> has, and all of them are code points below 256: one hex digit; two hex
  digits; one hex digit preceded by \<^verbatim>\<open>+\<close>, by \<^verbatim>\<open>-\<close> or by a white-space character; one hex
  digit followed by a white-space character. A hex digit followed by a sign is not
  accepted. Beyond code point 255 Python's \<^verbatim>\<open>int\<close> also accepts the other Unicode decimal
  digits and white-space characters; such strings are outside this model.
\<close>

definition accepted_slice :: "string \<Rightarrow> bool" where
  "accepted_slice t =
     (case t of
        [a] \<Rightarrow> is_hex_digit a
      | [a, b] \<Rightarrow>
          (is_hex_digit a \<and> is_hex_digit b)
          \<or> ((is_space a \<or> a = CHR ''+'' \<or> a = CHR ''-'') \<and> is_hex_digit b)
          \<or> (is_hex_digit a \<and> is_space b)
      | _ \<Rightarrow> False)"

section \<open>Floating-point arithmetic of the luminance pipeline\<close>

text \<open>
  Python's \<^verbatim>\<open>float\<close> is IEEE 754 binary64. A finite double is modelled by the real number it
  denotes, and every arithmetic operation by the exact real operation followed by rounding to
  the nearest double, ties to even, as IEEE 754 prescribes for \<^verbatim>\<open>+\<close>, \<^verbatim>\<open>*\<close> and \<^verbatim>\<open>/\<close>, and as
  Python does when it reads a decimal literal or converts an \<^verbatim>\<open>int\<close>. Infinities, NaN and the
  sign of zero have no counterpart: the model is exact as long as results stay below
  \<open>2^1024\<close> in magnitude, and for colours of the specified format every value stays below
  22, given the assumption on the power function made below.
\<close>

text \<open>The binade of a positive real: \<open>binade x = e\<close> with \<open>2^e \<le> x < 2^(e+1)\<close>, found by
  halving or doubling as \<^verbatim>\<open>frexp\<close> does; 0 for \<open>x \<le> 0\<close>.\<close>

function binade :: "real \<Rightarrow> int" where
  "binade x =
     (if x \<le> 0 then 0
      else if 2 \<le> x then binade (x / 2) + 1
      else if x < 1 then binade (2 * x) - 1
      else 0)"
  by pat_completeness auto
termination
proof (relation "measure (\<lambda>x. if 1 \<le> x then nat \<lfloor>x\<rfloor> else nat \<lceil>1 / x\<rceil> + 1)")
  show "wf (measure (\<lambda>x::real. if 1 \<le> x then nat \<lfloor>x\<rfloor> else nat \<lceil>1 / x\<rceil> + 1))" by simp
next
  fix x :: real
  assume "\<not> x \<le> 0" "2 \<le> x"
  then have "\<lfloor>x / 2\<rfloor> < \<lfloor>x\<rfloor>" "0 < \<lfloor>x\<rfloor>" by linarith+
  then show "(x / 2, x) \<in> measure (\<lambda>x. if 1 \<le> x then nat \<lfloor>x\<rfloor> else nat \<lceil>1 / x\<rceil> + 1)"
    using \<open>2 \<le> x\<close> by auto
next
  fix x :: real
  assume a: "\<not> x \<le> 0" "\<not> 2 \<le> x" "x < 1"
  then have p: "1 < 1 / x" by simp
  then have c: "2 \<le> \<lceil>1 / x\<rceil>" by linarith
  show "(2 * x, x) \<in> measure (\<lambda>x. if 1 \<le> x then nat \<lfloor>x\<rfloor> else nat \<lceil>1 / x\<rceil> + 1)"
  proof (cases "1 \<le> 2 * x")
    case True
    then have "\<lfloor>2 * x\<rfloor> = 1" using a by linarith
    then show ?thesis using True a c by auto
  next
    case False
    have "1 / (2 * x) = (1 / x) / 2" by simp
    moreover have "2 < 1 / x" using False a by (simp add: field_simps)
    ultimately have "\<lceil>1 / (2 * x)\<rceil> < \<lceil>1 / x\<rceil>" by linarith
    then show ?thesis using False a c by auto
  qed
qed

declare binade.simps [simp del]

text \<open>Rounding a real to the nearest integer, a tie going to the even neighbour.\<close>

definition round_half_even :: "real \<Rightarrow> int" where
  "round_half_even q =
     (let n = \<lfloor>q\<rfloor>; r = q - of_int n in
      if r < 1 / 2 then n else if 1 / 2 < r then n + 1 else if even n then n else n + 1)"

text \<open>
  The exponent of the last place of the doubles around \<open>x\<close>: 52 below the binade for normal
  numbers, and fixed at \<open>-1074\<close> for subnormal ones (binades below \<open>-1022\<close>).
\<close>

definition ulp_exp :: "real \<Rightarrow> int" where
  "ulp_exp x = max (binade \<bar>x\<bar>) (- 1022) - 52"

text \<open>Rounding to a multiple of \<open>2^e\<close>, and to the nearest double.\<close>

definition round_grid :: "int \<Rightarrow> real \<Rightarrow> real" where
  "round_grid e x = of_int (round_half_even (x / 2 powi e)) * 2 powi e"

definition round64 :: "real \<Rightarrow> real" where
  "round64 x = of_int (round_half_even (x / 2 powi ulp_exp x)) * 2 powi ulp_exp x"

text \<open>
  A decimal literal of the source, \<open>int \<rightarrow> float\<close> conversion, and the three operations.
  \<open>fdiv\<close> is the quotient for a divisor known to be non-zero; \<open>truediv\<close> is Python's \<^verbatim>\<open>/\<close>,
  which raises \<^verbatim>\<open>ZeroDivisionError\<close> on a zero divisor.
\<close>

definition lit :: "real \<Rightarrow> real" where
  "lit d = round64 d"

definition float_of_int :: "int \<Rightarrow> real" where
  "float_of_int n = round64 (of_int n)"

definition fadd :: "real \<Rightarrow> real \<Rightarrow> real" where
  "fadd x y = round64 (x + y)"

definition fmul :: "real \<Rightarrow> real \<Rightarrow> real" where
  "fmul x y = round64 (x * y)"

definition fdiv :: "real \<Rightarrow> real \<Rightarrow> real" where
  "fdiv x y = round64 (x / y)"

definition truediv :: "real \<Rightarrow> real \<Rightarrow> py_error + real" where
  "truediv x y = (if y = 0 then Inl ZeroDivisionError else Inr (fdiv x y))"

subsection \<open>The power function of the C library\<close>

text \<open>
  \<^verbatim>\<open>x ** 2.4\<close> on floats is the C library's \<^verbatim>\<open>pow\<close>, which IEEE 754 does not require to be
  correctly rounded: its result at a given double differs between platforms in the last
  place. It is therefore a parameter \<open>pw\<close> of the model, \<open>pw x\<close> standing for \<^verbatim>\<open>x ** 2.4\<close>.
  What is assumed of it, on the arguments \<open>0 < x \<le> 1\<close> that the pipeline passes for parsed
  colours: the result lies in \<open>[0, 1]\<close>, \<open>pow(1, y) = 1\<close> (C99, Annex F), and the relative error
  against the real power \<open>x^(12/5)\<close> is at most \<open>2^-20\<close>. Every C library in use is accurate
  to about \<open>2^-52\<close>; the double nearest to 2.4 differs from \<open>12/5\<close> by less than \<open>2^-52\<close>, which
  moves the power by a relative \<open>2^-50\<close> at most on these arguments. Only the values of \<open>pw\<close> at
  doubles matter, so a library function satisfies the assumption as soon as it does at doubles.
\<close>

definition libm_pow_ok :: "(real \<Rightarrow> real) \<Rightarrow> bool" where
  "libm_pow_ok pw =
     (\<forall>x. 0 < x \<and> x \<le> 1 \<longrightarrow>
        0 \<le> pw x \<and> pw x \<le> 1 \<and> (x = 1 \<longrightarrow> pw x = 1)
        \<and> \<bar>pw x - x powr (12 / 5)\<bar> \<le> x powr (12 / 5) / 2 ^ 20)"

text \<open>The real power itself, one function that meets the assumption.\<close>

definition exact_pow :: "real \<Rightarrow> real" where
  "exact_pow x = x powr (12 / 5)"

subsection \<open>\<open>luminance\<close>\<close>

text \<open>
  \<^verbatim>\<open>
  def transform(c):
      c = c / 255.0
      return c / 12.92 if c <= 0.03928 else ((c + 0.055) / 1.055) ** 2.4
  r, g, b = [transform(c) for c in rgb]
  return 0.2126 * r + 0.7152 * g + 0.0722 * b
  \<close>
  The divisors are non-zero literals, so no division raises. The power is only reached with
  a positive base.
\<close>

definition transform :: "(real \<Rightarrow> real) \<Rightarrow> int \<Rightarrow> real" where
  "transform pw c =
     (let c' = fdiv (float_of_int c) (lit 255) in
      if c' \<le> lit (3928 / 100000) then fdiv c' (lit (1292 / 100))
      else pw (fdiv (fadd c' (lit (55 / 1000))) (lit (1055 / 1000))))"

definition luminance :: "(real \<Rightarrow> real) \<Rightarrow> int \<times> int \<times> int \<Rightarrow> real" where
  "luminance pw rgb =
     (case rgb of (r0, g0, b0) \<Rightarrow>
        let r = transform pw r0; g = transform pw g0; b = transform pw b0 in
        fadd (fadd (fmul (lit (2126 / 10000)) r) (fmul (lit (7152 / 10000)) g))
             (fmul (lit (722 / 10000)) b))"

subsection \<open>\<open>contrast_ratio\<close>\<close>

text \<open>
  Python's \<^verbatim>\<open>max(a, b)\<close> keeps \<open>a\<close> unless \<open>b > a\<close>, and \<^verbatim>\<open>min(a, b)\<close> keeps \<open>a\<close> unless \<open>b < a\<close>.
  The first colour is parsed before the second, so its \<^verbatim>\<open>ValueError\<close> comes first.
\<close>

definition py_max :: "real \<Rightarrow> real \<Rightarrow> real" where
  "py_max a b = (if b > a then b else a)"

definition py_min :: "real \<Rightarrow> real \<Rightarrow> real" where
  "py_min a b = (if b < a then b else a)"

definition contrast_ratio :: "(real \<Rightarrow> real) \<Rightarrow> string \<Rightarrow> string \<Rightarrow> py_error + real" where
  "contrast_ratio pw color1 color2 =
     (case hex_to_rgb color1 of
        Inl e \<Rightarrow> Inl e
      | Inr rgb1 \<Rightarrow>
          (case hex_to_rgb color2 of
             Inl e \<Rightarrow> Inl e
           | Inr rgb2 \<Rightarrow>
               let lum1 = luminance pw rgb1;
                   lum2 = luminance pw rgb2;
                   lighter = py_max lum1 lum2;
                   darker = py_min lum1 lum2
               in truediv (fadd lighter (lit (5 / 100))) (fadd darker (lit (5 / 100)))))"

subsection \<open>\<open>check_compliance\<close>\<close>

text \<open>
  The call prints one line and returns the verdict. The line is modelled by the four values
  it is formatted from (the description, the ratio, the PASS/FAIL flag, the threshold), not
  by its characters. The defaults of the source are \<^verbatim>\<open>min_ratio=4.5\<close> and \<^verbatim>\<open>description=""\<close>.
\<close>

record report_line =
  line_description :: string
  line_ratio :: real
  line_pass :: bool
  line_min_ratio :: real

definition check_compliance ::
  "(real \<Rightarrow> real) \<Rightarrow> string \<Rightarrow> string \<Rightarrow> real \<Rightarrow> string \<Rightarrow> py_error + (report_line \<times> bool)" where
  "check_compliance pw foreground background min_ratio description =
     (case contrast_ratio pw foreground background of
        Inl e \<Rightarrow> Inl e
      | Inr ratio \<Rightarrow>
          let compliant = (ratio \<ge> min_ratio) in
          Inr (\<lparr>line_description = description, line_ratio = ratio, line_pass = compliant,
                 line_min_ratio = min_ratio\<rparr>, compliant))"

definition check_compliance_default ::
  "(real \<Rightarrow> real) \<Rightarrow> string \<Rightarrow> string \<Rightarrow> py_error + (report_line \<times> bool)" where
  "check_compliance_default pw foreground background =
     check_compliance pw foreground background (lit (45 / 10)) []"

subsection \<open>The luminance formula in the words of the specification\<close>

text \<open>
  Normalise \<open>c' = c / 255.0\<close>; take \<open>c' / 12.92\<close> if \<open>c' \<le> 0.03928\<close> and
  \<open>((c' + 0.055) / 1.055) ^ 2.4\<close> otherwise; combine the three linear channels as
  \<open>0.2126 * linear_r + 0.7152 * linear_g + 0.0722 * linear_b\<close>.
\<close>

definition wcag_linear :: "(real \<Rightarrow> real) \<Rightarrow> int \<Rightarrow> real" where
  "wcag_linear pw c =
     (let c' = fdiv (float_of_int c) (lit 255) in
      if c' \<le> lit (3928 / 100000) then fdiv c' (lit (1292 / 100))
      else pw (fdiv (fadd c' (lit (55 / 1000))) (lit (1055 / 1000))))"

definition wcag_luminance :: "(real \<Rightarrow> real) \<Rightarrow> int \<Rightarrow> int \<Rightarrow> int \<Rightarrow> real" where
  "wcag_luminance pw r g b =
     fadd (fadd (fmul (lit (2126 / 10000)) (wcag_linear pw r))
                (fmul (lit (7152 / 10000)) (wcag_linear pw g)))
          (fmul (lit (722 / 10000)) (wcag_linear pw b))"

section \<open>Properties of the colour parser\<close>

subsection \<open>What \<open>int(., 16)\<close> accepts on a slice of at most two characters\<close>

lemma hex_digit_iff: "digit_value c < 16 \<longleftrightarrow> is_hex_digit c"
proof
  assume "digit_value c < 16"
  then have "(of_char c :: nat) \<in> {48..57} \<union> {97..102} \<union> {65..70}"
    by (auto simp: digit_value_def Let_def split: if_splits)
  then have "(of_char c :: nat) \<in> {48,49,50,51,52,53,54,55,56,57,97,98,99,100,101,102,65,66,67,68,69,70}"
    by simp arith
  then have "\<exists>d \<in> set ''0123456789abcdefABCDEF''. (of_char d :: nat) = of_char c"
    by (elim insertE; simp)
  then show "is_hex_digit c"
    by (auto simp: is_hex_digit_def)
next
  assume "is_hex_digit c"
  then show "digit_value c < 16"
    unfolding is_hex_digit_def digit_value_def by auto
qed

lemma hex_not_special:
  "is_hex_digit c \<Longrightarrow> \<not> is_space c \<and> c \<noteq> CHR ''+'' \<and> c \<noteq> CHR ''-'' \<and> c \<noteq> CHR ''_'' \<and> c \<noteq> CHR ''#''"
  by (auto simp: is_hex_digit_def is_space_def)

lemma space_not_special:
  "is_space c \<Longrightarrow> c \<noteq> CHR ''+'' \<and> c \<noteq> CHR ''-'' \<and> c \<noteq> CHR ''_'' \<and> \<not> digit_value c < 16"
  by (auto simp: is_space_def digit_value_def)

lemma sign_not_digit: "\<not> digit_value CHR ''+'' < 16" "\<not> digit_value CHR ''-'' < 16" "\<not> digit_value CHR ''_'' < 16"
  "\<not> digit_value CHR ''x'' < 16" "\<not> digit_value CHR ''X'' < 16" "digit_value CHR ''0'' = 0"
  by (simp_all add: digit_value_def)

lemma py_int16_empty: "py_int16 [] = Inl ValueError"
  by (simp add: py_int16_def skip_sign_def skip_prefix_def)

lemma py_int16_one: "py_int16 [a] = (if is_hex_digit a then Inr (int (digit_value a)) else Inl ValueError)"
  using hex_not_special[of a] space_not_special[of a] sign_not_digit
  by (auto simp: py_int16_def skip_sign_def skip_prefix_def hex_digit_iff[symmetric])

lemma not_space_lits: "\<not> is_space CHR ''x''" "\<not> is_space CHR ''X''" "\<not> is_space CHR ''0''"
  "\<not> is_space CHR ''+''" "\<not> is_space CHR ''-''" "\<not> is_space CHR ''_''"
  by (simp_all add: is_space_def)

lemma py_int16_two: "py_int16 [a, b] =
   (if is_hex_digit a \<and> is_hex_digit b then Inr (16 * int (digit_value a) + int (digit_value b))
    else if (is_space a \<or> a = CHR ''+'') \<and> is_hex_digit b then Inr (int (digit_value b))
    else if a = CHR ''-'' \<and> is_hex_digit b then Inr (- int (digit_value b))
    else if is_hex_digit a \<and> is_space b then Inr (int (digit_value a))
    else Inl ValueError)"
proof -
  note defs = py_int16_def skip_sign_def skip_prefix_def hex_digit_iff[symmetric]
  note facts = hex_not_special[of b] space_not_special[of b] sign_not_digit not_space_lits
  consider (sp) "is_space a" | (pl) "a = CHR ''+''" | (mi) "a = CHR ''-''" | (us) "a = CHR ''_''"
    | (hex) "is_hex_digit a" 
    | (other) "\<not> is_space a" "a \<noteq> CHR ''+''" "a \<noteq> CHR ''-''" "a \<noteq> CHR ''_''" "\<not> is_hex_digit a"
    by blast
  then show ?thesis
  proof cases
    case sp
    then show ?thesis using facts space_not_special[of a] hex_not_special[of a]
      by (auto simp: defs)
  next
    case pl
    then show ?thesis using facts 
      by (auto simp: defs)
  next
    case mi
    then show ?thesis using facts 
      by (auto simp: defs)
  next
    case us
    then show ?thesis using facts 
      by (auto simp: defs)
  next
    case hex
    then show ?thesis using facts hex_not_special[of a]
      by (auto simp: defs)
  next
    case other
    then show ?thesis using facts
      by (auto simp: defs)
  qed
qed


lemma py_int16_accepted:
  "length t \<le> 2 \<Longrightarrow> (py_int16 t = Inl ValueError) = (\<not> accepted_slice t)"
proof -
  assume len: "length t \<le> 2"
  then consider "t = []" | a where "t = [a]" | a b where "t = [a, b]"
    by (cases t rule: list.exhaust; simp) (rename_tac a r, case_tac r; simp; rename_tac b r', case_tac r'; simp)
  then show ?thesis
  proof cases
    case 1
    then show ?thesis by (simp add: py_int16_empty accepted_slice_def)
  next
    case 2
    then show ?thesis by (simp add: py_int16_one accepted_slice_def)
  next
    case 3
    then show ?thesis by (auto simp: py_int16_two accepted_slice_def)
  qed
qed

lemma py_int16_error: "py_int16 t = Inl e \<Longrightarrow> e = ValueError"
  by (auto simp: py_int16_def Let_def split: prod.splits option.splits if_splits)

lemma accepted_slice_iff:
  "length t \<le> 2 \<Longrightarrow> accepted_slice t = (py_int16 t \<noteq> Inl ValueError)"
  using py_int16_accepted[of t] by blast

lemma hex_to_rgb_error_iff:
  "(hex_to_rgb s = Inl ValueError) =
   (\<not> (accepted_slice (slice (lstrip_hash s) 0 2)
       \<and> accepted_slice (slice (lstrip_hash s) 2 4)
       \<and> accepted_slice (slice (lstrip_hash s) 4 6)))"
proof -
  let ?h = "lstrip_hash s"
  have a: "accepted_slice (slice ?h 0 2) = (py_int16 (slice ?h 0 2) \<noteq> Inl ValueError)"
    by (rule accepted_slice_iff) (simp add: slice_def)
  have b: "accepted_slice (slice ?h 2 4) = (py_int16 (slice ?h 2 4) \<noteq> Inl ValueError)"
    by (rule accepted_slice_iff) (simp add: slice_def)
  have c: "accepted_slice (slice ?h 4 6) = (py_int16 (slice ?h 4 6) \<noteq> Inl ValueError)"
    by (rule accepted_slice_iff) (simp add: slice_def)
  show ?thesis
    unfolding a b c hex_to_rgb_def Let_def
    by (auto split: sum.splits dest: py_int16_error)
qed

lemma lstrip_valid: "valid_color s \<Longrightarrow> six_hex_digits (lstrip_hash s)"
proof -
  assume v: "valid_color s"
  show ?thesis
  proof (cases s)
    case Nil
    with v show ?thesis by (simp add: valid_color_def strip_optional_hash_def six_hex_digits_def)
  next
    case (Cons c r)
    show ?thesis
    proof (cases "c = CHR ''#''")
      case True
      with v Cons have r: "six_hex_digits r" by (simp add: valid_color_def strip_optional_hash_def)
      then obtain d r' where "r = d # r'" "is_hex_digit d" 
        by (cases r) (auto simp: six_hex_digits_def)
      then have "lstrip_hash s = r" using Cons True hex_not_special[of d]
        by (simp add: lstrip_hash_def)
      with r show ?thesis by simp
    next
      case False
      with v Cons show ?thesis
        by (simp add: valid_color_def strip_optional_hash_def lstrip_hash_def)
    qed
  qed
qed

lemma six_hex_digits_cases:
  "six_hex_digits t \<Longrightarrow> \<exists>a b c d e f. t = [a, b, c, d, e, f] \<and> is_hex_digit a \<and> is_hex_digit b
     \<and> is_hex_digit c \<and> is_hex_digit d \<and> is_hex_digit e \<and> is_hex_digit f"
  unfolding six_hex_digits_def
  by (auto simp: length_Suc_conv eval_nat_numeral)

lemma hex_to_rgb_six:
  assumes "six_hex_digits (lstrip_hash s)"
  shows "\<exists>r g b. hex_to_rgb s = Inr (r, g, b) \<and> 0 \<le> r \<and> r \<le> 255 \<and> 0 \<le> g \<and> g \<le> 255 \<and> 0 \<le> b \<and> b \<le> 255"
proof -
  from six_hex_digits_cases[OF assms] obtain a b c d e f where
    h: "lstrip_hash s = [a, b, c, d, e, f]" and
    x: "is_hex_digit a" "is_hex_digit b" "is_hex_digit c" "is_hex_digit d" "is_hex_digit e" "is_hex_digit f"
    by blast
  have dv: "digit_value a < 16" "digit_value b < 16" "digit_value c < 16" "digit_value d < 16"
     "digit_value e < 16" "digit_value f < 16"
    using x by (simp_all add: hex_digit_iff)
  have "hex_to_rgb s = Inr (16 * int (digit_value a) + int (digit_value b),
     16 * int (digit_value c) + int (digit_value d), 16 * int (digit_value e) + int (digit_value f))"
    using x by (simp add: hex_to_rgb_def h slice_def py_int16_two)
  then show ?thesis using dv by auto
qed

lemma hex_to_rgb_short: "length (lstrip_hash s) < 5 \<Longrightarrow> hex_to_rgb s = Inl ValueError"
  by (simp add: hex_to_rgb_error_iff slice_def accepted_slice_def)

lemma lstrip_hash_replicate: "lstrip_hash (replicate n (CHR ''#'') @ s) = lstrip_hash s"
  by (induction n) (simp_all add: lstrip_hash_def)

lemma lstrip_hash_fix: "xs = [] \<or> hd xs \<noteq> CHR ''#'' \<Longrightarrow> lstrip_hash xs = xs"
  by (cases xs) (simp_all add: lstrip_hash_def)

lemma lstrip_hash_head: "lstrip_hash s = [] \<or> hd (lstrip_hash s) \<noteq> CHR ''#''"
  unfolding lstrip_hash_def using hd_dropWhile[of "\<lambda>c. c = CHR ''#''" s] by blast

lemma lstrip_hash_idem: "lstrip_hash (take k (lstrip_hash s)) = take k (lstrip_hash s)"
proof (rule lstrip_hash_fix)
  show "take k (lstrip_hash s) = [] \<or> hd (take k (lstrip_hash s)) \<noteq> CHR ''#''"
    using lstrip_hash_head[of s] by (cases "lstrip_hash s"; cases k) auto
qed

lemma slice_take6: "j \<le> 6 \<Longrightarrow> slice (take 6 h) i j = slice h i j"
  by (simp add: slice_def drop_take min_def)

lemma hex_to_rgb_prefix: "hex_to_rgb s = hex_to_rgb (take 6 (lstrip_hash s))"
proof -
  let ?h = "lstrip_hash s"
  have s1: "slice (take 6 ?h) 0 2 = slice ?h 0 2" by (rule slice_take6) simp
  have s2: "slice (take 6 ?h) 2 4 = slice ?h 2 4" by (rule slice_take6) simp
  have s3: "slice (take 6 ?h) 4 6 = slice ?h 4 6" by (rule slice_take6) simp
  show ?thesis
    unfolding hex_to_rgb_def Let_def lstrip_hash_idem s1 s2 s3 ..
qed

lemma hex_to_rgb_five:
  assumes "length t = 5" "list_all is_hex_digit t"
  shows "hex_to_rgb t =
           Inr (16 * int (digit_value (t ! 0)) + int (digit_value (t ! 1)),
                16 * int (digit_value (t ! 2)) + int (digit_value (t ! 3)),
                int (digit_value (t ! 4)))"
proof -
  from assms obtain a b c d e where t: "t = [a, b, c, d, e]"
    by (auto simp: length_Suc_conv eval_nat_numeral)
  with assms(2) have x: "is_hex_digit a" "is_hex_digit b" "is_hex_digit c" "is_hex_digit d"
    "is_hex_digit e" by simp_all
  have "lstrip_hash t = t"
    using hex_not_special[OF x(1)] by (simp add: t lstrip_hash_def)
  then show ?thesis
    using x by (simp add: hex_to_rgb_def t slice_def py_int16_two py_int16_one)
qed

subsection \<open>Concrete calls\<close>

lemma hex_to_rgb_primary: "hex_to_rgb ''#1565C0'' = Inr (21, 101, 192)"
  by code_simp

lemma hex_to_rgb_white: "hex_to_rgb ''#FFFFFF'' = Inr (255, 255, 255)"
  by code_simp

lemma hex_to_rgb_black: "hex_to_rgb ''#000000'' = Inr (0, 0, 0)"
  by code_simp

lemma hex_to_rgb_surface: "hex_to_rgb ''#FAFAFA'' = Inr (250, 250, 250)"
  by code_simp

lemma py_int16_15: "py_int16 ''15'' = Inr 0x15"
  by code_simp

lemma py_int16_65: "py_int16 ''65'' = Inr 0x65"
  by code_simp

lemma py_int16_C0: "py_int16 ''C0'' = Inr 0xC0"
  by code_simp

lemma hex_to_rgb_five_digits: "hex_to_rgb ''12345'' = Inr (18, 52, 5)"
  by code_simp

lemma hex_to_rgb_two_hashes: "hex_to_rgb ''##1565C0'' = Inr (21, 101, 192)"
  by code_simp

lemma hex_to_rgb_eight_digits: "hex_to_rgb ''1565C0FF'' = Inr (21, 101, 192)"
  by code_simp

lemma hex_to_rgb_non_hex: "hex_to_rgb ''#GGGGGG'' = Inl ValueError"
  by code_simp

lemma hex_to_rgb_empty: "hex_to_rgb [] = Inl ValueError"
  by code_simp

lemma hex_to_rgb_hash_five_digits: "hex_to_rgb ''#12345'' = Inr (18, 52, 5)"
  by code_simp

lemma malformed_colors:
  "\<not> valid_color ''12345''" "\<not> valid_color ''##1565C0''" "\<not> valid_color ''1565C0FF''"
  "\<not> valid_color ''#12345''"
  by (simp_all add: valid_color_def strip_optional_hash_def six_hex_digits_def is_hex_digit_def)

lemma valid_color_examples:
  "valid_color ''#1565C0''" "valid_color ''#FFFFFF''" "valid_color ''#000000''"
  "valid_color ''#FAFAFA''"
  by (simp_all add: valid_color_def strip_optional_hash_def six_hex_digits_def is_hex_digit_def)

lemma hex_to_rgb_error_slices:
  "(hex_to_rgb s = Inl ValueError) =
     (py_int16 (slice (lstrip_hash s) 0 2) = Inl ValueError
      \<or> py_int16 (slice (lstrip_hash s) 2 4) = Inl ValueError
      \<or> py_int16 (slice (lstrip_hash s) 4 6) = Inl ValueError)"
  unfolding hex_to_rgb_def Let_def
  by (auto split: sum.splits dest: py_int16_error)

lemma py_int16_digit_sign: "py_int16 ''f+'' = Inl ValueError"
  by code_simp

lemma py_int16_sign_digit: "py_int16 ''+f'' = Inr 15"
  by code_simp

lemma accepted_slice_examples: "\<not> accepted_slice ''f+''" "accepted_slice ''+f''"
  by (simp_all add: accepted_slice_def is_hex_digit_def is_space_def)

subsection \<open>The claims about \<open>hex_to_rgb\<close>\<close>

text \<open>
  C8. \<open>hex_to_rgb "#1565C0"\<close> returns \<open>(0x15, 0x65, 0xC0) = (21, 101, 192)\<close>: after the \<open>#\<close>
  is stripped the string is cut into the two-character slices at offsets 0, 2 and 4, and
  each slice is read as a base-16 integer.
\<close>

theorem hex_to_rgb_1565C0:
  "hex_to_rgb ''#1565C0'' = Inr (21, 101, 192)
   \<and> lstrip_hash ''#1565C0'' = ''1565C0''
   \<and> slice ''1565C0'' 0 2 = ''15'' \<and> slice ''1565C0'' 2 4 = ''65'' \<and> slice ''1565C0'' 4 6 = ''C0''
   \<and> py_int16 ''15'' = Inr 0x15 \<and> py_int16 ''65'' = Inr 0x65 \<and> py_int16 ''C0'' = Inr 0xC0
   \<and> (0x15, 0x65, 0xC0) = (21 :: int, 101 :: int, 192 :: int)"
proof (intro conjI)
  show "hex_to_rgb ''#1565C0'' = Inr (21, 101, 192)" by (rule hex_to_rgb_primary)
  show "lstrip_hash ''#1565C0'' = ''1565C0''" by (simp add: lstrip_hash_def)
  show "slice ''1565C0'' 0 2 = ''15''" by (simp add: slice_def)
  show "slice ''1565C0'' 2 4 = ''65''" by (simp add: slice_def)
  show "slice ''1565C0'' 4 6 = ''C0''" by (simp add: slice_def)
  show "py_int16 ''15'' = Inr 0x15" by (rule py_int16_15)
  show "py_int16 ''65'' = Inr 0x65" by (rule py_int16_65)
  show "py_int16 ''C0'' = Inr 0xC0" by (rule py_int16_C0)
  show "(0x15, 0x65, 0xC0) = (21 :: int, 101 :: int, 192 :: int)" by simp
qed

text \<open>
  C10. \<open>hex_to_rgb\<close> returns a triple on inputs outside the six-hex-digit format: every
  leading \<open>#\<close> is stripped, whatever their number; the characters after the first six of
  the stripped string are never read; and five hex digits are accepted, the last slice
  being the single fifth digit. The inputs \<open>12345\<close>, \<open>##1565C0\<close> and \<open>1565C0FF\<close>, none of
  them a colour of the specified format, are all parsed.
\<close>

theorem hex_to_rgb_lenient:
  "hex_to_rgb (replicate n (CHR ''#'') @ s) = hex_to_rgb s
   \<and> hex_to_rgb s = hex_to_rgb (take 6 (lstrip_hash s))
   \<and> (length t = 5 \<and> list_all is_hex_digit t \<longrightarrow>
        hex_to_rgb t =
          Inr (16 * int (digit_value (t ! 0)) + int (digit_value (t ! 1)),
               16 * int (digit_value (t ! 2)) + int (digit_value (t ! 3)),
               int (digit_value (t ! 4))))
   \<and> hex_to_rgb ''12345'' = Inr (18, 52, 5) \<and> \<not> valid_color ''12345''
   \<and> hex_to_rgb ''##1565C0'' = Inr (21, 101, 192) \<and> \<not> valid_color ''##1565C0''
   \<and> hex_to_rgb ''1565C0FF'' = Inr (21, 101, 192) \<and> \<not> valid_color ''1565C0FF''"
proof (intro conjI impI)
  show "hex_to_rgb (replicate n (CHR ''#'') @ s) = hex_to_rgb s"
    by (simp add: hex_to_rgb_def lstrip_hash_replicate)
  show "hex_to_rgb s = hex_to_rgb (take 6 (lstrip_hash s))"
    by (rule hex_to_rgb_prefix)
  show "hex_to_rgb t =
          Inr (16 * int (digit_value (t ! 0)) + int (digit_value (t ! 1)),
               16 * int (digit_value (t ! 2)) + int (digit_value (t ! 3)),
               int (digit_value (t ! 4)))"
    if "length t = 5 \<and> list_all is_hex_digit t"
    using that hex_to_rgb_five by blast
  show "hex_to_rgb ''12345'' = Inr (18, 52, 5)" by (rule hex_to_rgb_five_digits)
  show "\<not> valid_color ''12345''" by (rule malformed_colors)
  show "hex_to_rgb ''##1565C0'' = Inr (21, 101, 192)" by (rule hex_to_rgb_two_hashes)
  show "\<not> valid_color ''##1565C0''" by (rule malformed_colors)
  show "hex_to_rgb ''1565C0FF'' = Inr (21, 101, 192)" by (rule hex_to_rgb_eight_digits)
  show "\<not> valid_color ''1565C0FF''" by (rule malformed_colors)
qed

theorem hex_to_rgb_lenient_witness:
  "length ''abcde'' = 5 \<and> list_all is_hex_digit ''abcde''
   \<and> hex_to_rgb ''abcde'' = Inr (171, 205, 14)"
proof -
  have h: "length ''abcde'' = 5 \<and> list_all is_hex_digit ''abcde''"
    by (simp add: is_hex_digit_def)
  note five = hex_to_rgb_lenient [of 0 "[]" "''abcde''", THEN conjunct2, THEN conjunct2,
      THEN conjunct1, rule_format, OF h]
  have "hex_to_rgb ''abcde'' = Inr (171, 205, 14)"
    unfolding five by (simp add: digit_value_def)
  with h show ?thesis by (intro conjI) simp_all
qed

text \<open>
  C1, as amended, for strings of code points below 256. \<open>hex_to_rgb\<close> has no format check
  of its own and no \<open>InvalidColorFormat\<close>: the only error it raises is the \<open>ValueError\<close> of
  \<open>int\<close>, and it raises it exactly when \<open>int(., 16)\<close> rejects one of the slices \<open>[0:2]\<close>,
  \<open>[2:4]\<close>, \<open>[4:6]\<close> of the input without its leading \<open>#\<close>s, that is exactly when one of
  these slices is none of: one hex digit; two hex digits; one hex digit preceded by \<open>+\<close>,
  \<open>-\<close> or a white-space character; one hex digit followed by a white-space character. So
  every colour of the specified format is parsed, every input with fewer than five
  characters after stripping fails, and \<open>#GGGGGG\<close> and the empty string fail. The function
  is pure: its result is a function of the input alone.
\<close>

theorem hex_to_rgb_failure:
  "((hex_to_rgb s = Inl ValueError) =
      (\<not> (accepted_slice (slice (lstrip_hash s) 0 2)
          \<and> accepted_slice (slice (lstrip_hash s) 2 4)
          \<and> accepted_slice (slice (lstrip_hash s) 4 6))))
   \<and> (\<forall>e. hex_to_rgb s = Inl e \<longrightarrow> e = ValueError)
   \<and> (valid_color s \<longrightarrow> (\<exists>rgb. hex_to_rgb s = Inr rgb))
   \<and> (length (lstrip_hash s) < 5 \<longrightarrow> hex_to_rgb s = Inl ValueError)
   \<and> hex_to_rgb ''#GGGGGG'' = Inl ValueError
   \<and> hex_to_rgb [] = Inl ValueError
   \<and> ((hex_to_rgb s = Inl ValueError) =
        (py_int16 (slice (lstrip_hash s) 0 2) = Inl ValueError
         \<or> py_int16 (slice (lstrip_hash s) 2 4) = Inl ValueError
         \<or> py_int16 (slice (lstrip_hash s) 4 6) = Inl ValueError))
   \<and> py_int16 ''f+'' = Inl ValueError \<and> \<not> accepted_slice ''f+''
   \<and> py_int16 ''+f'' = Inr 15 \<and> accepted_slice ''+f''"
proof (intro conjI allI impI)
  show "(hex_to_rgb s = Inl ValueError) =
      (\<not> (accepted_slice (slice (lstrip_hash s) 0 2)
          \<and> accepted_slice (slice (lstrip_hash s) 2 4)
          \<and> accepted_slice (slice (lstrip_hash s) 4 6)))"
    by (rule hex_to_rgb_error_iff)
  show "e = ValueError" if "hex_to_rgb s = Inl e" for e
    using that by (cases e) (auto simp: hex_to_rgb_def Let_def split: sum.splits dest: py_int16_error)
  show "\<exists>rgb. hex_to_rgb s = Inr rgb" if "valid_color s"
    using hex_to_rgb_six[OF lstrip_valid[OF that]] by blast
  show "hex_to_rgb s = Inl ValueError" if "length (lstrip_hash s) < 5"
    using that by (rule hex_to_rgb_short)
  show "hex_to_rgb ''#GGGGGG'' = Inl ValueError" by (rule hex_to_rgb_non_hex)
  show "hex_to_rgb [] = Inl ValueError" by (rule hex_to_rgb_empty)
  show "(hex_to_rgb s = Inl ValueError) =
        (py_int16 (slice (lstrip_hash s) 0 2) = Inl ValueError
         \<or> py_int16 (slice (lstrip_hash s) 2 4) = Inl ValueError
         \<or> py_int16 (slice (lstrip_hash s) 4 6) = Inl ValueError)"
    by (rule hex_to_rgb_error_slices)
  show "py_int16 ''f+'' = Inl ValueError" by (rule py_int16_digit_sign)
  show "\<not> accepted_slice ''f+''" by (rule accepted_slice_examples)
  show "py_int16 ''+f'' = Inr 15" by (rule py_int16_sign_digit)
  show "accepted_slice ''+f''" by (rule accepted_slice_examples)
qed

theorem hex_to_rgb_failure_witness:
  "valid_color ''#1565C0'' \<and> (\<exists>rgb. hex_to_rgb ''#1565C0'' = Inr rgb)
   \<and> length (lstrip_hash ''#123'') < 5 \<and> hex_to_rgb ''#123'' = Inl ValueError"
proof -
  have v: "valid_color ''#1565C0''"
    by (rule valid_color_examples)
  have l: "length (lstrip_hash ''#123'') < 5"
    by (simp add: lstrip_hash_def)
  note p = hex_to_rgb_failure [of "''#1565C0''", THEN conjunct2, THEN conjunct2, THEN conjunct1,
      rule_format, OF v]
  note q = hex_to_rgb_failure [of "''#123''", THEN conjunct2, THEN conjunct2, THEN conjunct2,
      THEN conjunct1, rule_format, OF l]
  from v p l q show ?thesis by (intro conjI)
qed

text \<open>
  C1 as stated fails at \<open>#12345\<close>: five hex digits remain after the \<open>#\<close>, which is not the
  specified format, and yet the call returns \<open>(18, 52, 5)\<close> instead of failing.
\<close>

theorem hex_to_rgb_12345_counterexample:
  "\<not> valid_color ''#12345'' \<and> hex_to_rgb ''#12345'' = Inr (18, 52, 5)"
  by (intro conjI) (rule malformed_colors, rule hex_to_rgb_hash_five_digits)

section \<open>Properties of the rounding to binary64\<close>

lemma binade_bounds:
  "0 < x \<Longrightarrow> 2 powi binade x \<le> x \<and> x < 2 powi (binade x + 1)"
proof (induction x rule: binade.induct)
  case (1 x)
  show ?case
  proof (cases "2 \<le> x")
    case True
    with "1.prems" have b: "binade x = binade (x / 2) + 1"
      by (subst binade.simps) simp
    have "2 powi binade (x / 2) \<le> x / 2 \<and> x / 2 < 2 powi (binade (x / 2) + 1)"
      using "1.IH"(1) "1.prems" True by simp
    then show ?thesis
      unfolding b by (simp add: power_int_add)
  next
    case False
    show ?thesis
    proof (cases "x < 1")
      case True
      with "1.prems" False have b: "binade x = binade (2 * x) - 1"
        by (subst binade.simps) simp
      have "2 powi binade (2 * x) \<le> 2 * x \<and> 2 * x < 2 powi (binade (2 * x) + 1)"
        using "1.IH"(2) "1.prems" False True by simp
      then show ?thesis
        unfolding b by (simp add: power_int_add power_int_diff)
    next
      case nlt: False
      with "1.prems" False have b: "binade x = 0"
        by (subst binade.simps) simp
      show ?thesis unfolding b using False nlt by simp
    qed
  qed
qed

lemma binade_mono:
  assumes "0 < x" "x \<le> y"
  shows "binade x \<le> binade y"
proof (rule ccontr)
  assume "\<not> binade x \<le> binade y"
  then have "binade y + 1 \<le> binade x" by simp
  then have "(2::real) powi (binade y + 1) \<le> 2 powi binade x"
    by (intro power_int_increasing) simp_all
  moreover have "y < 2 powi (binade y + 1)" using binade_bounds[of y] assms by simp
  moreover have "2 powi binade x \<le> x" using binade_bounds[of x] assms by simp
  ultimately show False using assms by linarith
qed

lemma round_half_even_bounds: "\<lfloor>q\<rfloor> \<le> round_half_even q \<and> round_half_even q \<le> \<lfloor>q\<rfloor> + 1"
  by (simp add: round_half_even_def Let_def)

lemma round_half_even_of_int [simp]: "round_half_even (of_int n) = n"
  by (simp add: round_half_even_def)

lemma round_half_even_mono:
  assumes "p \<le> q"
  shows "round_half_even p \<le> round_half_even q"
proof (cases "\<lfloor>p\<rfloor> = \<lfloor>q\<rfloor>")
  case True
  then have "p - of_int \<lfloor>p\<rfloor> \<le> q - of_int \<lfloor>q\<rfloor>" using assms by simp
  then show ?thesis
    using True by (auto simp: round_half_even_def Let_def)
next
  case False
  then have "\<lfloor>p\<rfloor> + 1 \<le> \<lfloor>q\<rfloor>" using floor_mono[OF assms] by linarith
  then show ?thesis
    using round_half_even_bounds[of p] round_half_even_bounds[of q] by linarith
qed

lemma round64_grid: "round64 x = round_grid (ulp_exp x) x"
  by (simp add: round64_def round_grid_def)

lemma round_grid_mono: "x \<le> y \<Longrightarrow> round_grid e x \<le> round_grid e y"
  unfolding round_grid_def
  by (intro mult_right_mono round_half_even_mono divide_right_mono)
     (simp_all add: round_half_even_mono divide_right_mono)

lemma round_grid_fix: "round_grid e (of_int k * 2 powi e) = of_int k * 2 powi e"
  by (simp add: round_grid_def)

lemma pow2_on_grid:
  assumes "e \<le> b"
  shows "round_grid e (2 powi b) = 2 powi b"
proof -
  have "(2::real) powi b = 2 powi (b - e) * 2 powi e"
    by (simp add: power_int_add[symmetric])
  also have "(2::real) powi (b - e) = of_int (2 ^ nat (b - e))"
    using assms by (simp add: power_int_def)
  finally have "(2::real) powi b = of_int (2 ^ nat (b - e)) * 2 powi e" .
  then show ?thesis using round_grid_fix[of e "2 ^ nat (b - e)"] by simp
qed

lemma ulp_exp_mono: "0 < x \<Longrightarrow> x \<le> y \<Longrightarrow> ulp_exp x \<le> ulp_exp y"
  using binade_mono[of x y] by (simp add: ulp_exp_def)

lemma round64_zero [simp]: "round64 0 = 0"
  by (simp add: round64_def round_half_even_def)

lemma round64_nonneg: "0 \<le> x \<Longrightarrow> 0 \<le> round64 x"
proof -
  assume "0 \<le> x"
  then have "0 \<le> x / 2 powi ulp_exp x" by simp
  from round_half_even_mono[OF this] have "0 \<le> round_half_even (x / 2 powi ulp_exp x)"
    by (simp add: round_half_even_def)
  then show ?thesis by (simp add: round64_def)
qed

lemma round64_mono_pos:
  assumes "0 < x" "x \<le> y"
  shows "round64 x \<le> round64 y"
proof (cases "ulp_exp x = ulp_exp y")
  case True
  then show ?thesis using round_grid_mono[OF assms(2)] by (simp add: round64_grid)
next
  case False
  with ulp_exp_mono[OF assms] have lt: "ulp_exp x < ulp_exp y" by simp
  have ypos: "0 < y" using assms by simp
  have ax: "\<bar>x\<bar> = x" and ay: "\<bar>y\<bar> = y" using assms by simp_all
  from lt have bb: "- 1022 < binade y" "binade x < binade y"
    by (simp_all add: ulp_exp_def ax ay max_def split: if_splits)
  let ?B = "(2::real) powi binade y"
  have "x < 2 powi (binade x + 1)" using binade_bounds[OF assms(1)] by simp
  also have "\<dots> \<le> ?B" using bb by (intro power_int_increasing) simp_all
  finally have xB: "x \<le> ?B" by simp
  have By: "?B \<le> y" using binade_bounds[OF ypos] by simp
  have ex: "ulp_exp x \<le> binade y" using bb by (simp add: ulp_exp_def ax max_def)
  have ey: "ulp_exp y \<le> binade y" by (simp add: ulp_exp_def ay max_def) (use bb in linarith)
  have "round64 x \<le> round_grid (ulp_exp x) ?B"
    using round_grid_mono[OF xB] by (simp add: round64_grid)
  also have "\<dots> = ?B" by (rule pow2_on_grid[OF ex])
  also have "\<dots> = round_grid (ulp_exp y) ?B" by (rule pow2_on_grid[OF ey, symmetric])
  also have "\<dots> \<le> round64 y" using round_grid_mono[OF By] by (simp add: round64_grid)
  finally show ?thesis .
qed

lemma round64_mono:
  assumes "0 \<le> x" "x \<le> y"
  shows "round64 x \<le> round64 y"
proof (cases "x = 0")
  case True
  then show ?thesis using round64_nonneg[of y] assms by simp
next
  case False
  then show ?thesis using round64_mono_pos[of x y] assms by simp
qed

subsection \<open>The constants of the source, as doubles\<close>

lemmas r64_eval = round64_def ulp_exp_def binade.simps round_half_even_def Let_def

lemma lit_03928: "lit (3928 / 100000) = 5660844587619619 / 2 ^ 57" by (simp add: lit_def r64_eval)

lemma lit_1292: "lit (1292 / 100) = 7273313398203351 / 2 ^ 49" by (simp add: lit_def r64_eval)

lemma lit_055: "lit (55 / 1000) = 7926335344172073 / 2 ^ 57" by (simp add: lit_def r64_eval)

lemma lit_1055: "lit (1055 / 1000) = 4751297606875873 / 2 ^ 52" by (simp add: lit_def r64_eval)

lemma lit_2126: "lit (2126 / 10000) = 1914930561557935 / 2 ^ 53" by (simp add: lit_def r64_eval)

lemma lit_7152: "lit (7152 / 10000) = 6441948906990757 / 2 ^ 53" by (simp add: lit_def r64_eval)

lemma lit_0722: "lit (722 / 10000) = 5202558289538397 / 2 ^ 56" by (simp add: lit_def r64_eval)

lemma lit_05: "lit (5 / 100) = 3602879701896397 / 2 ^ 56" by (simp add: lit_def r64_eval)

lemma lit_255: "lit 255 = 255" by (simp add: lit_def r64_eval)

lemma round64_one: "round64 1 = 1" by (simp add: r64_eval)

lemma round64_21: "round64 21 = 21" by (simp add: r64_eval)

lemma add_1_055: "fadd 1 (7926335344172073 / 2 ^ 57) = 4751297606875873 / 2 ^ 52"
  by (simp add: fadd_def r64_eval)

lemma add_1_05: "fadd 1 (3602879701896397 / 2 ^ 56) = 4728779608739021 / 2 ^ 52"
  by (simp add: fadd_def r64_eval)

lemma ratio_21: "fdiv (4728779608739021 / 2 ^ 52) (3602879701896397 / 2 ^ 56) = 21"
  by (simp add: fdiv_def r64_eval)

lemma sum_rg: "fadd (1914930561557935 / 2 ^ 53) (6441948906990757 / 2 ^ 53) = 2089219867137173 / 2 ^ 51"
  by (simp add: fadd_def r64_eval)

lemma sum_rgb: "fadd (2089219867137173 / 2 ^ 51) (5202558289538397 / 2 ^ 56) = 1"
  by (simp add: fadd_def r64_eval)

section \<open>Properties of the luminance and of the contrast ratio\<close>

lemma round64_fix_consts:
  "round64 (7926335344172073 / 2 ^ 57) = 7926335344172073 / 2 ^ 57"
  "round64 (1914930561557935 / 2 ^ 53) = 1914930561557935 / 2 ^ 53"
  "round64 (6441948906990757 / 2 ^ 53) = 6441948906990757 / 2 ^ 53"
  "round64 (5202558289538397 / 2 ^ 56) = 5202558289538397 / 2 ^ 56"
  "round64 (3602879701896397 / 2 ^ 56) = 3602879701896397 / 2 ^ 56"
  "round64 255 = 255" "round64 (1 / 32) = 1 / 32"
  by (simp_all add: r64_eval)

lemma round64_le: "0 \<le> x \<Longrightarrow> x \<le> d \<Longrightarrow> round64 d = d \<Longrightarrow> round64 x \<le> d"
  using round64_mono[of x d] by simp

lemma round64_ge: "0 \<le> d \<Longrightarrow> d \<le> x \<Longrightarrow> round64 d = d \<Longrightarrow> d \<le> round64 x"
  using round64_mono[of d x] by simp

lemma transform_alt:
  "transform pw c =
     (let c' = round64 (round64 (of_int c) / 255) in
      if c' \<le> 5660844587619619 / 2 ^ 57 then round64 (c' / (7273313398203351 / 2 ^ 49))
      else pw (round64 (round64 (c' + 7926335344172073 / 2 ^ 57) / (4751297606875873 / 2 ^ 52))))"
  unfolding transform_def lit_03928 lit_1292 lit_055 lit_1055 lit_255 fdiv_def fadd_def
    float_of_int_def ..

lemma luminance_alt:
  "luminance pw (r0, g0, b0) =
     round64 (round64 (round64 (1914930561557935 / 2 ^ 53 * transform pw r0)
                       + round64 (6441948906990757 / 2 ^ 53 * transform pw g0))
              + round64 (5202558289538397 / 2 ^ 56 * transform pw b0))"
  unfolding luminance_def lit_2126 lit_7152 lit_0722 fadd_def fmul_def Let_def prod.case ..

lemma channel_range:
  assumes "0 \<le> c" "c \<le> 255"
  shows "0 \<le> round64 (round64 (of_int c) / 255) \<and> round64 (round64 (of_int c) / 255) \<le> 1"
proof -
  have f0: "0 \<le> round64 (of_int c)" using assms by (intro round64_nonneg) simp
  have f1: "round64 (of_int c) \<le> 255"
    using assms by (intro round64_le round64_fix_consts) simp_all
  have "round64 (round64 (of_int c) / 255) \<le> 1"
    using f0 f1 by (intro round64_le round64_one) simp_all
  moreover have "0 \<le> round64 (round64 (of_int c) / 255)"
    using f0 by (intro round64_nonneg) simp
  ultimately show ?thesis by simp
qed

lemma pow_arg_range:
  assumes "0 \<le> c'" "c' \<le> 1"
  shows "0 < round64 (round64 (c' + 7926335344172073 / 2 ^ 57) / (4751297606875873 / 2 ^ 52))
       \<and> round64 (round64 (c' + 7926335344172073 / 2 ^ 57) / (4751297606875873 / 2 ^ 52)) \<le> 1"
proof -
  let ?a = "round64 (c' + 7926335344172073 / 2 ^ 57)"
  have a0: "7926335344172073 / 2 ^ 57 \<le> ?a"
    using assms by (intro round64_ge round64_fix_consts) simp_all
  have "fadd 1 (7926335344172073 / 2 ^ 57) = 4751297606875873 / 2 ^ 52" by (rule add_1_055)
  then have top: "round64 (1 + 7926335344172073 / 2 ^ 57) = 4751297606875873 / 2 ^ 52"
    by (simp add: fadd_def)
  have "?a \<le> round64 (1 + 7926335344172073 / 2 ^ 57)"
    using assms by (intro round64_mono) simp_all
  then have a1: "?a \<le> 4751297606875873 / 2 ^ 52" unfolding top .
  have "1 / 32 \<le> ?a / (4751297606875873 / 2 ^ 52)"
    using a0 by (simp add: field_simps)
  then have "1 / 32 \<le> round64 (?a / (4751297606875873 / 2 ^ 52))"
    by (intro round64_ge round64_fix_consts) simp_all
  moreover have "round64 (?a / (4751297606875873 / 2 ^ 52)) \<le> 1"
    using a0 a1 by (intro round64_le round64_one) (simp_all add: field_simps)
  ultimately show ?thesis by simp
qed

lemma transform_range:
  assumes "libm_pow_ok pw" "0 \<le> c" "c \<le> 255"
  shows "0 \<le> transform pw c \<and> transform pw c \<le> 1"
proof -
  let ?c = "round64 (round64 (of_int c) / 255)"
  note cr = channel_range[OF assms(2,3)]
  show ?thesis
  proof (cases "?c \<le> 5660844587619619 / 2 ^ 57")
    case True
    then have t: "transform pw c = round64 (?c / (7273313398203351 / 2 ^ 49))"
      by (simp add: transform_alt)
    have "0 \<le> round64 (?c / (7273313398203351 / 2 ^ 49))"
      using cr by (intro round64_nonneg) simp
    moreover have "round64 (?c / (7273313398203351 / 2 ^ 49)) \<le> 1"
      using cr by (intro round64_le round64_one) (simp_all add: field_simps)
    ultimately show ?thesis unfolding t by simp
  next
    case False
    then have t: "transform pw c =
        pw (round64 (round64 (?c + 7926335344172073 / 2 ^ 57) / (4751297606875873 / 2 ^ 52)))"
      by (simp add: transform_alt)
    from pow_arg_range[of ?c] cr assms(1) show ?thesis
      unfolding t libm_pow_ok_def by blast
  qed
qed

lemma weighted_sum_range:
  assumes "0 \<le> r" "r \<le> 1" "0 \<le> g" "g \<le> 1" "0 \<le> b" "b \<le> 1"
  shows "0 \<le> round64 (round64 (round64 (1914930561557935 / 2 ^ 53 * r)
                       + round64 (6441948906990757 / 2 ^ 53 * g))
              + round64 (5202558289538397 / 2 ^ 56 * b))
       \<and> round64 (round64 (round64 (1914930561557935 / 2 ^ 53 * r)
                       + round64 (6441948906990757 / 2 ^ 53 * g))
              + round64 (5202558289538397 / 2 ^ 56 * b)) \<le> 1"
proof -
  let ?p = "round64 (1914930561557935 / 2 ^ 53 * r)"
  let ?q = "round64 (6441948906990757 / 2 ^ 53 * g)"
  let ?s = "round64 (5202558289538397 / 2 ^ 56 * b)"
  have p0: "0 \<le> ?p"
    using assms by (intro round64_nonneg) simp
  have p1: "?p \<le> 1914930561557935 / 2 ^ 53"
    using assms by (intro round64_le round64_fix_consts) simp_all
  note p = p0 p1
  have q0: "0 \<le> ?q"
    using assms by (intro round64_nonneg) simp
  have q1: "?q \<le> 6441948906990757 / 2 ^ 53"
    using assms by (intro round64_le round64_fix_consts) simp_all
  note q = q0 q1
  have s0: "0 \<le> ?s"
    using assms by (intro round64_nonneg) simp
  have s1: "?s \<le> 5202558289538397 / 2 ^ 56"
    using assms by (intro round64_le round64_fix_consts) simp_all
  note s = s0 s1
  have rg: "round64 (1914930561557935 / 2 ^ 53 + 6441948906990757 / 2 ^ 53) = 2089219867137173 / 2 ^ 51"
    using sum_rg by (simp add: fadd_def)
  have rgb: "round64 (2089219867137173 / 2 ^ 51 + 5202558289538397 / 2 ^ 56) = 1"
    using sum_rgb by (simp add: fadd_def)
  have pq0: "0 \<le> round64 (?p + ?q)" using p q by (intro round64_nonneg) simp
  have "round64 (?p + ?q) \<le> round64 (1914930561557935 / 2 ^ 53 + 6441948906990757 / 2 ^ 53)"
    using p q by (intro round64_mono) linarith+
  then have pq1: "round64 (?p + ?q) \<le> 2089219867137173 / 2 ^ 51" unfolding rg .
  have "round64 (round64 (?p + ?q) + ?s) \<le> round64 (2089219867137173 / 2 ^ 51 + 5202558289538397 / 2 ^ 56)"
    using pq0 pq1 s by (intro round64_mono) linarith+
  then have "round64 (round64 (?p + ?q) + ?s) \<le> 1" unfolding rgb .
  moreover have "0 \<le> round64 (round64 (?p + ?q) + ?s)"
    using pq0 s by (intro round64_nonneg) simp
  ultimately show ?thesis by simp
qed

lemma luminance_range:
  assumes "libm_pow_ok pw" "0 \<le> r" "r \<le> 255" "0 \<le> g" "g \<le> 255" "0 \<le> b" "b \<le> 255"
  shows "0 \<le> luminance pw (r, g, b) \<and> luminance pw (r, g, b) \<le> 1"
  unfolding luminance_alt
  using transform_range[OF assms(1,2,3)] transform_range[OF assms(1,4,5)]
    transform_range[OF assms(1,6,7)]
  by (intro weighted_sum_range) simp_all

lemma py_max_eq: "py_max a b = max a b"
  by (simp add: py_max_def max_def)

lemma py_min_eq: "py_min a b = min a b"
  by (simp add: py_min_def min_def)

lemma contrast_ratio_alt:
  assumes "hex_to_rgb color1 = Inr rgb1" "hex_to_rgb color2 = Inr rgb2"
  shows "contrast_ratio pw color1 color2 =
           truediv (round64 (max (luminance pw rgb1) (luminance pw rgb2) + 3602879701896397 / 2 ^ 56))
                   (round64 (min (luminance pw rgb1) (luminance pw rgb2) + 3602879701896397 / 2 ^ 56))"
  unfolding contrast_ratio_def assms sum.case Let_def py_max_eq py_min_eq lit_05 fadd_def ..

lemma ratio_core:
  assumes "0 \<le> d" "d \<le> l" "l \<le> 1"
  shows "0 < round64 (d + 3602879701896397 / 2 ^ 56)
       \<and> 1 \<le> round64 (round64 (l + 3602879701896397 / 2 ^ 56) / round64 (d + 3602879701896397 / 2 ^ 56))
       \<and> round64 (round64 (l + 3602879701896397 / 2 ^ 56) / round64 (d + 3602879701896397 / 2 ^ 56)) \<le> 21"
proof -
  let ?k = "3602879701896397 / 2 ^ 56 :: real"
  let ?n = "round64 (l + ?k)" and ?m = "round64 (d + ?k)"
  have m0: "?k \<le> ?m"
    using assms by (intro round64_ge round64_fix_consts) simp_all
  then have mpos: "0 < ?m" by simp
  have nm: "?m \<le> ?n"
    using assms by (intro round64_mono) simp_all
  have top: "round64 (1 + ?k) = 4728779608739021 / 2 ^ 52"
    using add_1_05 by (simp add: fadd_def)
  have "?n \<le> round64 (1 + ?k)"
    using assms by (intro round64_mono) simp_all
  then have n1: "?n \<le> 4728779608739021 / 2 ^ 52" unfolding top .
  have q1: "1 \<le> ?n / ?m" using nm mpos by simp
  then have lo: "1 \<le> round64 (?n / ?m)"
    by (intro round64_ge round64_one) simp_all
  have "?n / ?m \<le> (4728779608739021 / 2 ^ 52) / ?k"
    using n1 m0 mpos nm by (intro frac_le) simp_all
  then have "round64 (?n / ?m) \<le> round64 ((4728779608739021 / 2 ^ 52) / ?k)"
    using q1 by (intro round64_mono) simp_all
  also have "\<dots> = 21" using ratio_21 by (simp add: fdiv_def)
  finally have hi: "round64 (?n / ?m) \<le> 21" .
  from mpos lo hi show ?thesis by simp
qed

lemma valid_color_luminance:
  assumes "libm_pow_ok pw" "valid_color s"
  shows "\<exists>rgb. hex_to_rgb s = Inr rgb \<and> 0 \<le> luminance pw rgb \<and> luminance pw rgb \<le> 1"
proof -
  from hex_to_rgb_six[OF lstrip_valid[OF assms(2)]] obtain r g b where
    h: "hex_to_rgb s = Inr (r, g, b)" and
    rng: "0 \<le> r" "r \<le> 255" "0 \<le> g" "g \<le> 255" "0 \<le> b" "b \<le> 255"
    by blast
  from luminance_range[OF assms(1) rng] h show ?thesis by blast
qed

lemma contrast_ratio_valid:
  assumes "libm_pow_ok pw" "valid_color a" "valid_color b"
  shows "\<exists>r. contrast_ratio pw a b = Inr r \<and> contrast_ratio pw b a = Inr r \<and> 1 \<le> r \<and> r \<le> 21"
proof -
  from valid_color_luminance[OF assms(1,2)] obtain x where
    x: "hex_to_rgb a = Inr x" "0 \<le> luminance pw x" "luminance pw x \<le> 1" by blast
  from valid_color_luminance[OF assms(1,3)] obtain y where
    y: "hex_to_rgb b = Inr y" "0 \<le> luminance pw y" "luminance pw y \<le> 1" by blast
  let ?l = "max (luminance pw x) (luminance pw y)" and ?d = "min (luminance pw x) (luminance pw y)"
  have c: "0 \<le> ?d" "?d \<le> ?l" "?l \<le> 1" using x y by simp_all
  note rc = ratio_core[OF c]
  have ab: "contrast_ratio pw a b =
      Inr (round64 (round64 (?l + 3602879701896397 / 2 ^ 56) / round64 (?d + 3602879701896397 / 2 ^ 56)))"
    using rc by (simp add: contrast_ratio_alt[OF x(1) y(1)] truediv_def fdiv_def)
  have ba: "contrast_ratio pw b a =
      Inr (round64 (round64 (?l + 3602879701896397 / 2 ^ 56) / round64 (?d + 3602879701896397 / 2 ^ 56)))"
    using rc by (simp add: contrast_ratio_alt[OF y(1) x(1)] truediv_def fdiv_def max.commute min.commute)
  from ab ba rc show ?thesis by blast
qed

lemma contrast_ratio_same:
  assumes "libm_pow_ok pw" "valid_color a"
  shows "contrast_ratio pw a a = Inr 1"
proof -
  from valid_color_luminance[OF assms] obtain x where
    x: "hex_to_rgb a = Inr x" "0 \<le> luminance pw x" "luminance pw x \<le> 1" by blast
  have c: "0 \<le> luminance pw x" "luminance pw x \<le> luminance pw x" "luminance pw x \<le> 1"
    using x by simp_all
  from ratio_core[OF c] have "0 < round64 (luminance pw x + 3602879701896397 / 2 ^ 56)" by simp
  then show ?thesis
    by (simp add: contrast_ratio_alt[OF x(1) x(1)] truediv_def fdiv_def round64_one)
qed

lemma transform_255: "pw 1 = 1 \<Longrightarrow> transform pw 255 = 1"
proof -
  assume p: "pw 1 = 1"
  have top: "round64 (1 + 7926335344172073 / 2 ^ 57) = 4751297606875873 / 2 ^ 52"
    using add_1_055 by (simp add: fadd_def)
  have c: "round64 (round64 (of_int 255) / 255) = 1"
    by (simp add: round64_fix_consts round64_one)
  show ?thesis
    unfolding transform_alt c Let_def top by (simp add: round64_one p)
qed

lemma transform_0: "transform pw 0 = 0"
  unfolding transform_alt Let_def by simp

lemma luminance_white: "pw 1 = 1 \<Longrightarrow> luminance pw (255, 255, 255) = 1"
proof -
  assume p: "pw 1 = 1"
  have rg: "round64 (1914930561557935 / 2 ^ 53 + 6441948906990757 / 2 ^ 53) = 2089219867137173 / 2 ^ 51"
    using sum_rg by (simp add: fadd_def)
  have rgb: "round64 (2089219867137173 / 2 ^ 51 + 5202558289538397 / 2 ^ 56) = 1"
    using sum_rgb by (simp add: fadd_def)
  show ?thesis
    unfolding luminance_alt transform_255[of pw, OF p] mult_1_right round64_fix_consts rg rgb ..
qed

lemma luminance_black: "luminance pw (0, 0, 0) = 0"
  unfolding luminance_alt transform_0 by simp

lemma contrast_black_white: "pw 1 = 1 \<Longrightarrow> contrast_ratio pw ''#000000'' ''#FFFFFF'' = Inr 21"
proof -
  assume p: "pw 1 = 1"
  have top: "round64 (1 + 3602879701896397 / 2 ^ 56) = 4728779608739021 / 2 ^ 52"
    using add_1_05 by (simp add: fadd_def)
  have q: "round64 (4728779608739021 / 2 ^ 52 / (3602879701896397 / 2 ^ 56)) = 21"
    using ratio_21 by (simp add: fdiv_def)
  have "contrast_ratio pw ''#000000'' ''#FFFFFF'' =
      truediv (round64 (1 + 3602879701896397 / 2 ^ 56)) (round64 (0 + 3602879701896397 / 2 ^ 56))"
    unfolding contrast_ratio_alt[OF hex_to_rgb_black hex_to_rgb_white] luminance_black
      luminance_white[of pw, OF p] by simp
  also have "\<dots> = Inr 21"
    unfolding top add_0 round64_fix_consts truediv_def fdiv_def q by simp
  finally show ?thesis .
qed

lemma exact_pow_ok: "libm_pow_ok exact_pow"
  unfolding libm_pow_ok_def exact_pow_def
  by (auto intro: powr_le1)

subsection \<open>Bounds from the accuracy of the power function\<close>

lemma root5_power5: "0 < (u::real) \<Longrightarrow> (u ^ 5) powr (1 / 5) = u"
proof -
  assume u: "0 < u"
  have "(u ^ 5) powr (1 / 5) = (u powr (5::real)) powr (1 / 5)"
    using u powr_realpow[of u 5] by simp
  also have "\<dots> = u powr ((5::real) * (1 / 5))" by (rule powr_powr)
  also have "\<dots> = u" using u by simp
  finally show ?thesis .
qed

lemma root5_power12: "0 < (x::real) \<Longrightarrow> (x ^ 12) powr (1 / 5) = x powr (12 / 5)"
proof -
  assume x: "0 < x"
  have "(x ^ 12) powr (1 / 5) = (x powr (12::real)) powr (1 / 5)"
    using x powr_realpow[of x 12] by simp
  also have "\<dots> = x powr ((12::real) * (1 / 5))" by (rule powr_powr)
  also have "\<dots> = x powr (12 / 5)" by simp
  finally show ?thesis .
qed

lemma powr_12_5_le:
  assumes "0 < (x::real)" "x ^ 12 \<le> u ^ 5" "0 < u"
  shows "x powr (12 / 5) \<le> u"
proof -
  have "(x ^ 12) powr (1 / 5) \<le> (u ^ 5) powr (1 / 5)"
    using assms by (intro powr_mono2) simp_all
  then show ?thesis
    using assms by (simp add: root5_power5 root5_power12)
qed

lemma powr_12_5_ge:
  assumes "0 < (x::real)" "u ^ 5 \<le> x ^ 12" "0 < u"
  shows "u \<le> x powr (12 / 5)"
proof -
  have "(u ^ 5) powr (1 / 5) \<le> (x ^ 12) powr (1 / 5)"
    using assms by (intro powr_mono2) simp_all
  then show ?thesis
    using assms by (simp add: root5_power5 root5_power12)
qed

lemma pow_upper:
  assumes "libm_pow_ok pw" "0 < x" "x \<le> X" "X \<le> 1" "X ^ 12 \<le> u ^ 5" "0 < u"
  shows "0 \<le> pw x \<and> pw x \<le> u * (1 + 1 / 2 ^ 20)"
proof -
  let ?p = "x powr (12 / 5)"
  have x1: "x \<le> 1" using assms by linarith
  from assms(1,2) x1 have a: "0 \<le> pw x" "\<bar>pw x - ?p\<bar> \<le> ?p / 2 ^ 20"
    unfolding libm_pow_ok_def by blast+
  have "x ^ 12 \<le> X ^ 12" using assms by (intro power_mono) simp_all
  then have "x ^ 12 \<le> u ^ 5" using assms by linarith
  then have pu: "?p \<le> u" by (rule powr_12_5_le[OF assms(2) _ assms(6)])
  have "pw x - ?p \<le> ?p / 2 ^ 20" using a(2) by linarith
  then have "pw x \<le> ?p * (1 + 1 / 2 ^ 20)" by (simp add: algebra_simps)
  moreover have "?p * (1 + 1 / 2 ^ 20) \<le> u * (1 + 1 / 2 ^ 20)"
    using pu by (intro mult_right_mono) simp_all
  ultimately show ?thesis using a(1) by linarith
qed

lemma pow_lower:
  assumes "libm_pow_ok pw" "0 < X" "X \<le> x" "x \<le> 1" "u ^ 5 \<le> X ^ 12" "0 < u"
  shows "u * (1 - 1 / 2 ^ 20) \<le> pw x \<and> pw x \<le> 1"
proof -
  let ?p = "x powr (12 / 5)"
  have x0: "0 < x" using assms by linarith
  from assms(1,4) x0 have a: "pw x \<le> 1" "\<bar>pw x - ?p\<bar> \<le> ?p / 2 ^ 20"
    unfolding libm_pow_ok_def by blast+
  have "X ^ 12 \<le> x ^ 12" using assms by (intro power_mono) simp_all
  then have "u ^ 5 \<le> x ^ 12" using assms by linarith
  then have u: "u \<le> ?p" by (rule powr_12_5_ge[OF x0 _ assms(6)])
  have "?p - pw x \<le> ?p / 2 ^ 20" using a(2) by linarith
  then have "?p * (1 - 1 / 2 ^ 20) \<le> pw x" by (simp add: algebra_simps)
  moreover have "u * (1 - 1 / 2 ^ 20) \<le> ?p * (1 - 1 / 2 ^ 20)"
    using u by (intro mult_right_mono) simp_all
  ultimately show ?thesis using a(1) by linarith
qed

lemma transform_21: "transform pw 21 = pw (4690674158867069 / 2 ^ 55)"
  by (simp add: transform_alt r64_eval)

lemma transform_101: "transform pw 101 = pw (7702281158082577 / 2 ^ 54)"
  by (simp add: transform_alt r64_eval)

lemma transform_192: "transform pw 192 = pw (1724475630943233 / 2 ^ 51)"
  by (simp add: transform_alt r64_eval)

lemma transform_250: "transform pw 250 = pw (4419897376141605 / 2 ^ 52)"
  by (simp add: transform_alt r64_eval)

lemma weighted_sum_mono:
  assumes "0 \<le> r" "r \<le> r'" "0 \<le> g" "g \<le> g'" "0 \<le> b" "b \<le> b'"
  shows "round64 (round64 (round64 (1914930561557935 / 2 ^ 53 * r)
                       + round64 (6441948906990757 / 2 ^ 53 * g))
              + round64 (5202558289538397 / 2 ^ 56 * b))
       \<le> round64 (round64 (round64 (1914930561557935 / 2 ^ 53 * r')
                       + round64 (6441948906990757 / 2 ^ 53 * g'))
              + round64 (5202558289538397 / 2 ^ 56 * b'))"
proof -
  have p0: "0 \<le> round64 (1914930561557935 / 2 ^ 53 * r)"
    using assms by (intro round64_nonneg) simp
  have p: "round64 (1914930561557935 / 2 ^ 53 * r) \<le> round64 (1914930561557935 / 2 ^ 53 * r')"
    using assms by (intro round64_mono) simp_all
  have q0: "0 \<le> round64 (6441948906990757 / 2 ^ 53 * g)"
    using assms by (intro round64_nonneg) simp
  have q: "round64 (6441948906990757 / 2 ^ 53 * g) \<le> round64 (6441948906990757 / 2 ^ 53 * g')"
    using assms by (intro round64_mono) simp_all
  have s0: "0 \<le> round64 (5202558289538397 / 2 ^ 56 * b)"
    using assms by (intro round64_nonneg) simp
  have s: "round64 (5202558289538397 / 2 ^ 56 * b) \<le> round64 (5202558289538397 / 2 ^ 56 * b')"
    using assms by (intro round64_mono) simp_all
  have pq0: "0 \<le> round64 (round64 (1914930561557935 / 2 ^ 53 * r) + round64 (6441948906990757 / 2 ^ 53 * g))"
    using p0 q0 by (intro round64_nonneg) simp
  have pq: "round64 (round64 (1914930561557935 / 2 ^ 53 * r) + round64 (6441948906990757 / 2 ^ 53 * g))
      \<le> round64 (round64 (1914930561557935 / 2 ^ 53 * r') + round64 (6441948906990757 / 2 ^ 53 * g'))"
    using p0 q0 p q by (intro round64_mono) linarith+
  show ?thesis
    using pq0 pq s0 s by (intro round64_mono) linarith+
qed

lemma weighted_sum_upper_value:
  "round64 (round64 (round64 (1914930561557935 / 2 ^ 53 * (1 / 64))
                       + round64 (6441948906990757 / 2 ^ 53 * (5 / 32)))
              + round64 (5202558289538397 / 2 ^ 56 * (5 / 8)))
     = 5771700692447343 / 2 ^ 55"
  by (simp add: r64_eval)

lemma weighted_sum_lower_value:
  "round64 (round64 (round64 (1914930561557935 / 2 ^ 53 * (1 / 2))
                       + round64 (6441948906990757 / 2 ^ 53 * (1 / 2)))
              + round64 (5202558289538397 / 2 ^ 56 * (1 / 2)))
     = 1 / 2"
  by (simp add: r64_eval)

lemma luminance_primary_le:
  assumes "libm_pow_ok pw"
  shows "0 \<le> luminance pw (21, 101, 192) \<and> luminance pw (21, 101, 192) \<le> 11 / 64"
proof -
  have r: "0 \<le> transform pw 21 \<and> transform pw 21 \<le> 1 / 64"
  proof -
    have "0 \<le> pw (4690674158867069 / 2 ^ 55) \<and> pw (4690674158867069 / 2 ^ 55) \<le> 1 / 100 * (1 + 1 / 2 ^ 20)"
      by (rule pow_upper[OF assms, where X = "17 / 128"], simp_all add: power_divide)
    then show ?thesis unfolding transform_21 by (simp add: field_simps) linarith?
  qed
  have g: "0 \<le> transform pw 101 \<and> transform pw 101 \<le> 5 / 32"
  proof -
    have "0 \<le> pw (7702281158082577 / 2 ^ 54) \<and> pw (7702281158082577 / 2 ^ 54) \<le> 9 / 64 * (1 + 1 / 2 ^ 20)"
      by (rule pow_upper[OF assms, where X = "7 / 16"], simp_all add: power_divide)
    then show ?thesis unfolding transform_101 by (simp add: field_simps) linarith?
  qed
  have b: "0 \<le> transform pw 192 \<and> transform pw 192 \<le> 5 / 8"
  proof -
    have "0 \<le> pw (1724475630943233 / 2 ^ 51) \<and> pw (1724475630943233 / 2 ^ 51) \<le> 9 / 16 * (1 + 1 / 2 ^ 20)"
      by (rule pow_upper[OF assms, where X = "25 / 32"], simp_all add: power_divide)
    then show ?thesis unfolding transform_192 by (simp add: field_simps) linarith?
  qed
  have "luminance pw (21, 101, 192) \<le> 5771700692447343 / 2 ^ 55"
    unfolding luminance_alt weighted_sum_upper_value[symmetric]
    using r g b by (intro weighted_sum_mono) simp_all
  moreover have "0 \<le> luminance pw (21, 101, 192)"
    using luminance_range[OF assms, of 21 101 192] by simp
  ultimately show ?thesis by simp
qed

lemma luminance_surface_ge:
  assumes "libm_pow_ok pw"
  shows "1 / 2 \<le> luminance pw (250, 250, 250) \<and> luminance pw (250, 250, 250) \<le> 1"
proof -
  have t: "1 / 2 \<le> transform pw 250"
  proof -
    have "3 / 4 * (1 - 1 / 2 ^ 20) \<le> pw (4419897376141605 / 2 ^ 52) \<and> pw (4419897376141605 / 2 ^ 52) \<le> 1"
      by (rule pow_lower[OF assms, where X = "15 / 16"], simp_all add: power_divide)
    then show ?thesis unfolding transform_250 by (simp add: field_simps) linarith?
  qed
  have "1 / 2 \<le> luminance pw (250, 250, 250)"
    unfolding luminance_alt
    by (subst weighted_sum_lower_value[symmetric], intro weighted_sum_mono) (use t in simp_all)
  moreover have "luminance pw (250, 250, 250) \<le> 1"
    using luminance_range[OF assms, of 250 250 250] by simp
  ultimately show ?thesis by simp
qed

lemma pow_ok_one: "libm_pow_ok pw \<Longrightarrow> pw 1 = 1"
  unfolding libm_pow_ok_def by (drule spec[of _ 1]) simp

lemma lit_45: "lit (45 / 10) = 9 / 2" "lit (9 / 2) = 9 / 2"
  by (simp_all add: lit_def r64_eval)

lemma round64_fix_more:
  "round64 (37 / 8) = 37 / 8" "round64 2 = 2"
  "round64 (11 / 64 + 3602879701896397 / 2 ^ 56) = 3996944669291315 / 2 ^ 54"
  "round64 (1 / 2 + 3602879701896397 / 2 ^ 56) = 2476979795053773 / 2 ^ 52"
  "round64 (1 + 3602879701896397 / 2 ^ 56) = 4728779608739021 / 2 ^ 52"
  by (simp_all add: r64_eval)

lemma contrast_on_white:
  assumes "libm_pow_ok pw" "hex_to_rgb a = Inr x" "0 \<le> luminance pw x" "luminance pw x \<le> 1"
  shows "contrast_ratio pw a ''#FFFFFF'' =
           Inr (round64 (4728779608739021 / 2 ^ 52 / round64 (luminance pw x + 3602879701896397 / 2 ^ 56)))
       \<and> contrast_ratio pw ''#FFFFFF'' a =
           Inr (round64 (4728779608739021 / 2 ^ 52 / round64 (luminance pw x + 3602879701896397 / 2 ^ 56)))
       \<and> 3602879701896397 / 2 ^ 56 \<le> round64 (luminance pw x + 3602879701896397 / 2 ^ 56)"
proof -
  have w: "luminance pw (255, 255, 255) = 1"
    by (rule luminance_white[of pw, OF pow_ok_one[OF assms(1)]])
  have mx: "max (luminance pw x) 1 = 1" "min (luminance pw x) 1 = luminance pw x"
    "max 1 (luminance pw x) = 1" "min 1 (luminance pw x) = luminance pw x"
    using assms(4) by simp_all
  have m0: "3602879701896397 / 2 ^ 56 \<le> round64 (luminance pw x + 3602879701896397 / 2 ^ 56)"
    using assms(3) by (intro round64_ge round64_fix_consts) simp_all
  then have nz: "round64 (luminance pw x + 3602879701896397 / 2 ^ 56) \<noteq> 0" by simp
  show ?thesis
    unfolding contrast_ratio_alt[OF assms(2) hex_to_rgb_white]
      contrast_ratio_alt[OF hex_to_rgb_white assms(2)] w mx round64_fix_more truediv_def fdiv_def
    using nz m0 by simp
qed

lemma ratio_primary_on_white:
  assumes "libm_pow_ok pw"
  shows "\<exists>r. contrast_ratio pw ''#1565C0'' ''#FFFFFF'' = Inr r \<and> 37 / 8 \<le> r"
proof -
  let ?l = "luminance pw (21, 101, 192)"
  let ?m = "round64 (?l + 3602879701896397 / 2 ^ 56)"
  note lb = luminance_primary_le[OF assms]
  have l1: "?l \<le> 1" using lb by simp
  note c = contrast_on_white[OF assms hex_to_rgb_primary conjunct1[OF lb] l1]
  have mpos: "0 < ?m" using c by simp
  have "?m \<le> round64 (11 / 64 + 3602879701896397 / 2 ^ 56)"
    using lb by (intro round64_mono) simp_all
  then have mu: "?m \<le> 3996944669291315 / 2 ^ 54" unfolding round64_fix_more .
  have "37 / 8 * ?m \<le> 4728779608739021 / 2 ^ 52" using mu by simp
  then have "37 / 8 \<le> 4728779608739021 / 2 ^ 52 / ?m"
    using mpos by (simp add: pos_le_divide_eq)
  then have "37 / 8 \<le> round64 (4728779608739021 / 2 ^ 52 / ?m)"
    by (intro round64_ge round64_fix_more) simp_all
  with c show ?thesis by blast
qed

lemma ratio_white_on_surface:
  assumes "libm_pow_ok pw"
  shows "\<exists>r. contrast_ratio pw ''#FFFFFF'' ''#FAFAFA'' = Inr r \<and> r \<le> 2"
proof -
  let ?l = "luminance pw (250, 250, 250)"
  let ?m = "round64 (?l + 3602879701896397 / 2 ^ 56)"
  note lb = luminance_surface_ge[OF assms]
  have l0: "0 \<le> ?l" using lb by simp
  note c = contrast_on_white[OF assms hex_to_rgb_surface l0 conjunct2[OF lb]]
  have "round64 (1 / 2 + 3602879701896397 / 2 ^ 56) \<le> ?m"
    using lb by (intro round64_mono) simp_all
  then have ml: "2476979795053773 / 2 ^ 52 \<le> ?m" unfolding round64_fix_more .
  then have mpos: "0 < ?m" by simp
  have "4728779608739021 / 2 ^ 52 \<le> 2 * ?m" using ml by simp
  then have q: "4728779608739021 / 2 ^ 52 / ?m \<le> 2"
    using mpos by (simp add: pos_divide_le_eq)
  have "0 \<le> 4728779608739021 / 2 ^ 52 / ?m" using mpos by simp
  then have "round64 (4728779608739021 / 2 ^ 52 / ?m) \<le> 2"
    using q by (intro round64_le round64_fix_more)
  with c show ?thesis by blast
qed

lemma check_compliance_alt:
  "contrast_ratio pw fg bg = Inr r \<Longrightarrow>
   check_compliance pw fg bg m d =
     Inr (\<lparr>line_description = d, line_ratio = r, line_pass = (m \<le> r), line_min_ratio = m\<rparr>,
          m \<le> r)"
  by (simp add: check_compliance_def Let_def)

lemma check_compliance_error:
  "contrast_ratio pw fg bg = Inl e \<Longrightarrow> check_compliance pw fg bg m d = Inl e"
  by (simp add: check_compliance_def)

lemma exact_pow_one: "exact_pow 1 = 1"
  by (simp add: exact_pow_def)

text \<open>
  With white as the background the ratio never increases when the luminance of the
  foreground increases. Nothing here says that it decreases strictly: two distinct
  luminances may give quotients that round to the same double.
\<close>

lemma contrast_ratio_white_antitone:
  assumes "libm_pow_ok pw" "hex_to_rgb f1 = Inr x1" "hex_to_rgb f2 = Inr x2"
    "0 \<le> luminance pw x1" "luminance pw x1 \<le> luminance pw x2" "luminance pw x2 \<le> 1"
  shows "\<exists>r1 r2. contrast_ratio pw f1 ''#FFFFFF'' = Inr r1
           \<and> contrast_ratio pw f2 ''#FFFFFF'' = Inr r2 \<and> r2 \<le> r1"
proof -
  let ?k = "3602879701896397 / 2 ^ 56 :: real"
  let ?m1 = "round64 (luminance pw x1 + ?k)" and ?m2 = "round64 (luminance pw x2 + ?k)"
  have l1: "luminance pw x1 \<le> 1" and l2: "0 \<le> luminance pw x2" using assms by linarith+
  note c1 = contrast_on_white[OF assms(1,2,4) l1]
  note c2 = contrast_on_white[OF assms(1,3) l2 assms(6)]
  have m1: "0 < ?m1" using c1 by simp
  have m12: "?m1 \<le> ?m2" using assms by (intro round64_mono) simp_all
  have "4728779608739021 / 2 ^ 52 / ?m2 \<le> 4728779608739021 / 2 ^ 52 / ?m1"
    using m1 m12 by (intro divide_left_mono) simp_all
  moreover have "0 \<le> 4728779608739021 / 2 ^ 52 / ?m2" using m1 m12 by simp
  ultimately have "round64 (4728779608739021 / 2 ^ 52 / ?m2) \<le> round64 (4728779608739021 / 2 ^ 52 / ?m1)"
    by (intro round64_mono)
  with c1 c2 show ?thesis by blast
qed

section \<open>The claims about luminance, contrast ratio and compliance\<close>

text \<open>
  C2. For channel values between 0 and 255 the luminance computed by the code is the
  formula of the specification, evaluated in double arithmetic: each channel is divided by
  255.0, sent to \<open>c' / 12.92\<close> if \<open>c' \<le> 0.03928\<close> and to \<open>((c' + 0.055) / 1.055) ** 2.4\<close>
  otherwise, and the three results are combined with the weights 0.2126, 0.7152 and
  0.0722. The value returned lies between 0.0 and 1.0, for every power function that meets
  the assumption on the C library.
\<close>

theorem luminance_wcag_formula:
  "libm_pow_ok pw \<Longrightarrow> 0 \<le> r \<and> r \<le> 255 \<and> 0 \<le> g \<and> g \<le> 255 \<and> 0 \<le> b \<and> b \<le> 255 \<Longrightarrow>
     luminance pw (r, g, b) = wcag_luminance pw r g b
     \<and> 0 \<le> luminance pw (r, g, b) \<and> luminance pw (r, g, b) \<le> 1"
proof -
  assume ok: "libm_pow_ok pw" and rng: "0 \<le> r \<and> r \<le> 255 \<and> 0 \<le> g \<and> g \<le> 255 \<and> 0 \<le> b \<and> b \<le> 255"
  have "luminance pw (r, g, b) = wcag_luminance pw r g b"
    by (simp add: luminance_def wcag_luminance_def wcag_linear_def transform_def Let_def)
  moreover have "0 \<le> luminance pw (r, g, b) \<and> luminance pw (r, g, b) \<le> 1"
    using luminance_range[OF ok] rng by blast
  ultimately show ?thesis by simp
qed

theorem luminance_wcag_formula_witness:
  "libm_pow_ok exact_pow
   \<and> luminance exact_pow (21, 101, 192) = wcag_luminance exact_pow 21 101 192
   \<and> 0 \<le> luminance exact_pow (21, 101, 192) \<and> luminance exact_pow (21, 101, 192) \<le> 1"
proof -
  have rng: "(0::int) \<le> 21 \<and> (21::int) \<le> 255 \<and> (0::int) \<le> 101 \<and> (101::int) \<le> 255
      \<and> (0::int) \<le> 192 \<and> (192::int) \<le> 255" by simp
  from luminance_wcag_formula [OF exact_pow_ok rng] exact_pow_ok show ?thesis
    by (intro conjI) simp_all
qed

text \<open>
  C3. For two colours of the specified format the contrast ratio does not depend on the order
  of the arguments: both calls return the same double, the quotient of the larger luminance
  plus 0.05 by the smaller luminance plus 0.05.
\<close>

theorem contrast_ratio_symmetric:
  "libm_pow_ok pw \<Longrightarrow> valid_color a \<Longrightarrow> valid_color b \<Longrightarrow>
     contrast_ratio pw a b = contrast_ratio pw b a
     \<and> (\<exists>x y. hex_to_rgb a = Inr x \<and> hex_to_rgb b = Inr y
          \<and> contrast_ratio pw a b =
              Inr (fdiv (fadd (max (luminance pw x) (luminance pw y)) (lit (5 / 100)))
                        (fadd (min (luminance pw x) (luminance pw y)) (lit (5 / 100)))))"
proof -
  assume ok: "libm_pow_ok pw" and a: "valid_color a" and b: "valid_color b"
  from contrast_ratio_valid[OF ok a b] obtain r where
    r: "contrast_ratio pw a b = Inr r" "contrast_ratio pw b a = Inr r" by blast
  from valid_color_luminance[OF ok a] obtain x where x: "hex_to_rgb a = Inr x" by blast
  from valid_color_luminance[OF ok b] obtain y where y: "hex_to_rgb b = Inr y" by blast
  have "contrast_ratio pw a b =
      Inr (fdiv (fadd (max (luminance pw x) (luminance pw y)) (lit (5 / 100)))
                (fadd (min (luminance pw x) (luminance pw y)) (lit (5 / 100))))"
    using r(1) unfolding contrast_ratio_alt[OF x y] truediv_def lit_05 fadd_def
    by (simp split: if_splits)
  with r x y show ?thesis by auto
qed

theorem contrast_ratio_symmetric_witness:
  "libm_pow_ok exact_pow \<and> valid_color ''#1565C0'' \<and> valid_color ''#FFFFFF''
   \<and> contrast_ratio exact_pow ''#1565C0'' ''#FFFFFF'' = contrast_ratio exact_pow ''#FFFFFF'' ''#1565C0''"
  using contrast_ratio_symmetric [OF exact_pow_ok valid_color_examples(1) valid_color_examples(2)]
    exact_pow_ok valid_color_examples(1) valid_color_examples(2)
  by (intro conjI) simp_all

text \<open>
  C4. For two colours of the specified format the contrast ratio is returned (no error is
  raised) and lies between 1.0 and 21.0.
\<close>

theorem contrast_ratio_range:
  "libm_pow_ok pw \<Longrightarrow> valid_color a \<Longrightarrow> valid_color b \<Longrightarrow>
     \<exists>r. contrast_ratio pw a b = Inr r \<and> 1 \<le> r \<and> r \<le> 21"
  using contrast_ratio_valid[of pw a b] by blast

theorem contrast_ratio_range_witness:
  "libm_pow_ok exact_pow \<and> valid_color ''#1565C0'' \<and> valid_color ''#FFFFFF''
   \<and> (\<exists>r. contrast_ratio exact_pow ''#1565C0'' ''#FFFFFF'' = Inr r \<and> 1 \<le> r \<and> r \<le> 21)"
  using contrast_ratio_range [OF exact_pow_ok valid_color_examples(1) valid_color_examples(2)]
    exact_pow_ok valid_color_examples(1) valid_color_examples(2)
  by (intro conjI)

text \<open>
  C5. \<open>check_compliance\<close> returns \<open>True\<close> exactly when the contrast ratio is \<open>\<ge> min_ratio\<close>,
  the comparison being exact, and the default threshold is 4.5. For \<open>#1565C0\<close> on \<open>#FFFFFF\<close>
  with threshold 4.5 the ratio exceeds 4.5 and the verdict is \<open>True\<close>; for \<open>#FFFFFF\<close> on
  \<open>#FAFAFA\<close> with threshold 4.5 the verdict is \<open>False\<close>.
\<close>

theorem check_compliance_threshold:
  "(contrast_ratio pw fg bg = Inr r \<longrightarrow>
      (\<exists>line. check_compliance pw fg bg m d = Inr (line, m \<le> r) \<and> line_pass line = (m \<le> r)))
   \<and> check_compliance_default pw fg bg = check_compliance pw fg bg (9 / 2) []
   \<and> (libm_pow_ok pw \<longrightarrow>
        (\<exists>line r. contrast_ratio pw ''#1565C0'' ''#FFFFFF'' = Inr r \<and> 9 / 2 < r
           \<and> check_compliance pw ''#1565C0'' ''#FFFFFF'' (lit (45 / 10)) d = Inr (line, True)))
   \<and> (libm_pow_ok pw \<longrightarrow>
        (\<exists>line. check_compliance pw ''#FFFFFF'' ''#FAFAFA'' (lit (45 / 10)) d = Inr (line, False)))"
proof (intro conjI impI)
  show "\<exists>line. check_compliance pw fg bg m d = Inr (line, m \<le> r) \<and> line_pass line = (m \<le> r)"
    if "contrast_ratio pw fg bg = Inr r"
    using check_compliance_alt[OF that, of m d] by simp
  show "check_compliance_default pw fg bg = check_compliance pw fg bg (9 / 2) []"
    by (simp add: check_compliance_default_def lit_45)
  show "\<exists>line r. contrast_ratio pw ''#1565C0'' ''#FFFFFF'' = Inr r \<and> 9 / 2 < r
           \<and> check_compliance pw ''#1565C0'' ''#FFFFFF'' (lit (45 / 10)) d = Inr (line, True)"
    if ok: "libm_pow_ok pw"
  proof -
    from ratio_primary_on_white[OF ok] obtain r where
      r: "contrast_ratio pw ''#1565C0'' ''#FFFFFF'' = Inr r" "37 / 8 \<le> r" by blast
    then have "9 / 2 < r" by simp
    with check_compliance_alt[OF r(1), of "lit (45 / 10)" d] r(1) show ?thesis
      by (simp add: lit_45)
  qed
  show "\<exists>line. check_compliance pw ''#FFFFFF'' ''#FAFAFA'' (lit (45 / 10)) d = Inr (line, False)"
    if ok: "libm_pow_ok pw"
  proof -
    from ratio_white_on_surface[OF ok] obtain r where
      r: "contrast_ratio pw ''#FFFFFF'' ''#FAFAFA'' = Inr r" "r \<le> 2" by blast
    then have "\<not> 9 / 2 \<le> r" by simp
    with check_compliance_alt[OF r(1), of "lit (45 / 10)" d] show ?thesis
      by (simp add: lit_45)
  qed
qed

theorem check_compliance_threshold_witness:
  "libm_pow_ok exact_pow
   \<and> contrast_ratio exact_pow ''#000000'' ''#FFFFFF'' = Inr 21
   \<and> (\<exists>line. check_compliance exact_pow ''#000000'' ''#FFFFFF'' 3 [] = Inr (line, (3::real) \<le> 21)
         \<and> line_pass line = ((3::real) \<le> 21))
   \<and> (\<exists>line r. contrast_ratio exact_pow ''#1565C0'' ''#FFFFFF'' = Inr r \<and> 9 / 2 < r
         \<and> check_compliance exact_pow ''#1565C0'' ''#FFFFFF'' (lit (45 / 10)) [] = Inr (line, True))
   \<and> (\<exists>line. check_compliance exact_pow ''#FFFFFF'' ''#FAFAFA'' (lit (45 / 10)) [] = Inr (line, False))"
proof -
  have bw: "contrast_ratio exact_pow ''#000000'' ''#FFFFFF'' = Inr 21"
    by (rule contrast_black_white[of exact_pow, OF exact_pow_one])
  note t = check_compliance_threshold [of exact_pow "''#000000''" "''#FFFFFF''" 21 3 "[]"]
  note a = t [THEN conjunct1, rule_format, OF bw]
  note b = t [THEN conjunct2, THEN conjunct2, THEN conjunct1, rule_format, OF exact_pow_ok]
  note c = t [THEN conjunct2, THEN conjunct2, THEN conjunct2, rule_format, OF exact_pow_ok]
  from exact_pow_ok bw a b c show ?thesis by (intro conjI)
qed

text \<open>
  C6. The luminance of \<open>(255, 255, 255)\<close> is exactly 1.0 and that of \<open>(0, 0, 0)\<close> exactly 0.0;
  the contrast ratio of \<open>#000000\<close> and \<open>#FFFFFF\<close> is 21.0, within \<open>10^-6\<close> and in fact exactly,
  because \<open>(1.0 + 0.05) / (0.0 + 0.05)\<close> evaluates to 21.0 in double arithmetic. Of the power
  function only \<open>pow(1, 2.4) = 1\<close> is used.
\<close>

theorem luminance_extremes:
  "pw 1 = 1 \<Longrightarrow>
     luminance pw (255, 255, 255) = 1 \<and> luminance pw (0, 0, 0) = 0
     \<and> (\<exists>r. contrast_ratio pw ''#000000'' ''#FFFFFF'' = Inr r \<and> \<bar>r - 21\<bar> \<le> 1 / 10 ^ 6 \<and> r = 21)
     \<and> fdiv (fadd 1 (lit (5 / 100))) (fadd 0 (lit (5 / 100))) = 21"
proof (intro conjI)
  assume p: "pw 1 = 1"
  show "luminance pw (255, 255, 255) = 1" by (rule luminance_white[of pw, OF p])
  show "luminance pw (0, 0, 0) = 0" by (rule luminance_black)
  show "\<exists>r. contrast_ratio pw ''#000000'' ''#FFFFFF'' = Inr r \<and> \<bar>r - 21\<bar> \<le> 1 / 10 ^ 6 \<and> r = 21"
    using contrast_black_white[of pw, OF p] by simp
  have z: "fadd 0 (3602879701896397 / 2 ^ 56) = 3602879701896397 / 2 ^ 56"
    unfolding fadd_def add_0 by (rule round64_fix_consts)
  show "fdiv (fadd 1 (lit (5 / 100))) (fadd 0 (lit (5 / 100))) = 21"
    unfolding lit_05 add_1_05 z by (rule ratio_21)
qed

theorem luminance_extremes_witness:
  "exact_pow 1 = 1
   \<and> luminance exact_pow (255, 255, 255) = 1 \<and> luminance exact_pow (0, 0, 0) = 0
   \<and> contrast_ratio exact_pow ''#000000'' ''#FFFFFF'' = Inr 21"
proof -
  note t = luminance_extremes [of exact_pow, OF exact_pow_one]
  have "contrast_ratio exact_pow ''#000000'' ''#FFFFFF'' = Inr 21"
    using t by blast
  with t exact_pow_one show ?thesis by (intro conjI) simp_all
qed

text \<open>
  C7. For a colour of the specified format the contrast ratio with itself is exactly 1.0, and
  \<open>check_compliance\<close> on that pair returns \<open>False\<close> for every threshold above 1.0.
\<close>

theorem contrast_ratio_identical:
  "libm_pow_ok pw \<Longrightarrow> valid_color a \<Longrightarrow>
     contrast_ratio pw a a = Inr 1
     \<and> (\<forall>m d. 1 < m \<longrightarrow> (\<exists>line. check_compliance pw a a m d = Inr (line, False)))"
proof -
  assume ok: "libm_pow_ok pw" and a: "valid_color a"
  note s = contrast_ratio_same[OF ok a]
  have "\<exists>line. check_compliance pw a a m d = Inr (line, False)" if "1 < m" for m d
    using check_compliance_alt[OF s, of m d] that by simp
  with s show ?thesis by blast
qed

theorem contrast_ratio_identical_witness:
  "libm_pow_ok exact_pow \<and> valid_color ''#1565C0''
   \<and> contrast_ratio exact_pow ''#1565C0'' ''#1565C0'' = Inr 1
   \<and> (1::real) < 9 / 2
   \<and> (\<exists>line. check_compliance exact_pow ''#1565C0'' ''#1565C0'' (9 / 2) [] = Inr (line, False))"
proof -
  note t = contrast_ratio_identical [OF exact_pow_ok valid_color_examples(1)]
  have m: "(1::real) < 9 / 2" by simp
  note c = t [THEN conjunct2, rule_format, OF m, of "[]"]
  from exact_pow_ok valid_color_examples(1) t [THEN conjunct1] m c show ?thesis
    by (intro conjI)
qed

end
